theory Spec2Isabelle
  imports Complex_Main "HOL-Library.Word" "HOL-Library.Multiset" "HOL-Library.Sublist"
begin

section \<open>Strings\<close>

text \<open>
  A string of the dashboard is a JavaScript string: a sequence of 16-bit code units.
  \<open>str\<close> writes an ASCII literal as such a sequence.
\<close>

type_synonym jschar = "16 word"
type_synonym jsstring = "jschar list"

definition str :: "string \<Rightarrow> jsstring" where
  "str s = map of_char s"

section \<open>Preference store (theme-provider)\<close>

text \<open>
  The provider keeps the raw preference \<open>theme\<close> and the resolved value
  \<open>resolvedTheme\<close>; its effect touches the class list of the document root and the
  key \<open>theme\<close> of the local storage. The preference is a string at run time (the value
  read back from storage is cast, not validated), so the model keeps it a string.
\<close>

record provider =
  theme :: jsstring
  resolvedTheme :: jsstring
  classList :: "jsstring list"
  localStorage :: "jsstring \<rightharpoonup> jsstring"

text \<open>\<open>window.matchMedia("(prefers-color-scheme: dark)").matches ? "dark" : "light"\<close>\<close>

definition ambient :: "bool \<Rightarrow> jsstring" where
  "ambient prefersDark = (if prefersDark then str ''dark'' else str ''light'')"

definition effectiveTheme :: "bool \<Rightarrow> jsstring \<Rightarrow> jsstring" where
  "effectiveTheme prefersDark t = (if t = str ''system'' then ambient prefersDark else t)"

text \<open>\<open>classList.remove(a, b)\<close> and \<open>classList.add(c)\<close> of a token list.\<close>

definition classList_remove :: "jsstring \<Rightarrow> jsstring \<Rightarrow> jsstring list \<Rightarrow> jsstring list" where
  "classList_remove a b cl = filter (\<lambda>c. c \<noteq> a \<and> c \<noteq> b) cl"

definition classList_add :: "jsstring \<Rightarrow> jsstring list \<Rightarrow> jsstring list" where
  "classList_add c cl = (if c \<in> set cl then cl else cl @ [c])"

text \<open>
  The effect that depends on \<open>[theme, attribute]\<close>: it removes both theme classes,
  resolves the preference against the ambient signal, records the resolved value, adds the
  class when the attribute is \<open>class\<close>, and stores the raw preference.
\<close>

definition themeEffect :: "bool \<Rightarrow> jsstring \<Rightarrow> provider \<Rightarrow> provider" where
  "themeEffect prefersDark attribute st =
     (let cl = classList_remove (str ''light'') (str ''dark'') (classList st);
          eff = effectiveTheme prefersDark (theme st)
      in st\<lparr> resolvedTheme := eff,
              classList := (if attribute = str ''class'' then classList_add eff cl else cl),
              localStorage := (localStorage st)(str ''theme'' \<mapsto> theme st) \<rparr>)"

text \<open>
  \<open>setTheme\<close>: a state update to the value already held does not re-render; any other
  value re-renders, and the effect runs because its dependency changed.
\<close>

definition setTheme :: "bool \<Rightarrow> jsstring \<Rightarrow> jsstring \<Rightarrow> provider \<Rightarrow> provider" where
  "setTheme prefersDark attribute p st =
     (if p = theme st then st else themeEffect prefersDark attribute (st\<lparr> theme := p \<rparr>))"

section \<open>Whitespace\<close>

text \<open>
  The code units that \<open>String.prototype.trim\<close> strips and that the pattern
  \<open>\s\<close> matches: the white space and line terminator code points of ECMAScript.
\<close>

definition isWhiteSpace :: "jschar \<Rightarrow> bool" where
  "isWhiteSpace c =
     (c = 0x0009 \<or> c = 0x000A \<or> c = 0x000B \<or> c = 0x000C \<or> c = 0x000D \<or> c = 0x0020
      \<or> c = 0x00A0 \<or> c = 0x1680 \<or> (0x2000 \<le> c \<and> c \<le> 0x200A) \<or> c = 0x2028
      \<or> c = 0x2029 \<or> c = 0x202F \<or> c = 0x205F \<or> c = 0x3000 \<or> c = 0xFEFF)"

definition trimStart :: "jsstring \<Rightarrow> jsstring" where
  "trimStart s = dropWhile isWhiteSpace s"

definition trimEnd :: "jsstring \<Rightarrow> jsstring" where
  "trimEnd s = rev (dropWhile isWhiteSpace (rev s))"

definition trim :: "jsstring \<Rightarrow> jsstring" where
  "trim s = trimStart (trimEnd s)"

section \<open>Filter-builder (page.tsx, searchFilters)\<close>

record SearchFilters =
  skills :: "jsstring list"
  technologies :: "jsstring list"
  job_titles :: "jsstring list"
  industries :: "jsstring list"
  limit :: int

text \<open>\<open>keyof SearchFilters\<close>: the four criteria fields and \<open>limit\<close>.\<close>

datatype filterKey = Skills | Technologies | Job_titles | Industries | Limit

definition initialFilters :: SearchFilters where
  "initialFilters =
     \<lparr> skills = [], technologies = [], job_titles = [], industries = [], limit = 20 \<rparr>"

text \<open>
  \<open>searchFilters[type]\<close> read as an array: \<open>None\<close> for \<open>limit\<close>, whose value
  is a number (\<open>Array.isArray\<close> is false on it, and it has no \<open>filter\<close> method).
\<close>

fun getCriteria :: "filterKey \<Rightarrow> SearchFilters \<Rightarrow> jsstring list option" where
  "getCriteria Skills st = Some (skills st)"
| "getCriteria Technologies st = Some (technologies st)"
| "getCriteria Job_titles st = Some (job_titles st)"
| "getCriteria Industries st = Some (industries st)"
| "getCriteria Limit st = None"

text \<open>\<open>{ ...prev, [type]: xs }\<close> for a criteria field.\<close>

fun setCriteria :: "filterKey \<Rightarrow> jsstring list \<Rightarrow> SearchFilters \<Rightarrow> SearchFilters" where
  "setCriteria Skills xs st = st\<lparr> skills := xs \<rparr>"
| "setCriteria Technologies xs st = st\<lparr> technologies := xs \<rparr>"
| "setCriteria Job_titles xs st = st\<lparr> job_titles := xs \<rparr>"
| "setCriteria Industries xs st = st\<lparr> industries := xs \<rparr>"
| "setCriteria Limit xs st = st"

text \<open>
  \<open>addToSearchFilter\<close>: the guard reads the rendered state and the update appends to
  the previous state; handlers run one at a time against the committed state, so both are
  the same state here. A non-empty string is truthy.
\<close>

definition addToSearchFilter :: "filterKey \<Rightarrow> jsstring \<Rightarrow> SearchFilters \<Rightarrow> SearchFilters" where
  "addToSearchFilter type val st =
     (case getCriteria type st of
        None \<Rightarrow> st
      | Some xs \<Rightarrow>
          if trim val \<noteq> [] \<and> trim val \<notin> set xs
          then setCriteria type (xs @ [trim val]) st
          else st)"

datatype js_error = TypeError

text \<open>
  \<open>removeFromSearchFilter\<close>: keeps the items different from the value. On
  \<open>limit\<close> the updater calls \<open>filter\<close> on a number and throws.
\<close>

definition removeFromSearchFilter ::
  "filterKey \<Rightarrow> jsstring \<Rightarrow> SearchFilters \<Rightarrow> js_error + SearchFilters" where
  "removeFromSearchFilter type val st =
     (case getCriteria type st of
        None \<Rightarrow> Inl TypeError
      | Some xs \<Rightarrow> Inr (setCriteria type (filter (\<lambda>item. item \<noteq> val) xs) st))"

text \<open>The slider: \<open>{ ...prev, limit: value[0] }\<close>.\<close>

definition setLimit :: "int \<Rightarrow> SearchFilters \<Rightarrow> SearchFilters" where
  "setLimit n st = st\<lparr> limit := n \<rparr>"

text \<open>
  The states the filter-builder can be in: the initial state and whatever the three
  writers of \<open>searchFilters\<close> make of a state already reached.
\<close>

inductive reachable :: "SearchFilters \<Rightarrow> bool" where
  reach_init: "reachable initialFilters"
| reach_add: "reachable st \<Longrightarrow> reachable (addToSearchFilter k v st)"
| reach_remove: "reachable st \<Longrightarrow> removeFromSearchFilter k v st = Inr st' \<Longrightarrow> reachable st'"
| reach_limit: "reachable st \<Longrightarrow> reachable (setLimit n st)"

section \<open>Upload submission (page.tsx, handleFileUpload)\<close>

record upload_file =
  ftype :: jsstring
  fsize :: nat

text \<open>
  The part of the page state that the upload handler touches. \<open>timers\<close> counts the
  repeating progress timers that are running (created by \<open>setInterval\<close> and not yet
  cleared), \<open>resets\<close> the pending one-second timeouts that set the progress to 0, and
  \<open>requests\<close> the requests issued. The job list and the resume profile, which the
  handler replaces on success, are left out: nothing below reads them.
\<close>

record upload =
  selectedFile :: "upload_file option"
  isLoading :: bool
  error :: "jsstring option"
  success :: "jsstring option"
  uploadProgress :: int
  timers :: nat
  resets :: nat
  requests :: nat

text \<open>The state after mount (the \<open>useState\<close> defaults), with no timer and no request.\<close>

definition initialUpload :: upload where
  "initialUpload =
     \<lparr> selectedFile = None, isLoading = False, error = None, success = None,
       uploadProgress = 0, timers = 0, resets = 0, requests = 0 \<rparr>"

text \<open>
  \<open>handleFileUpload\<close> up to its first \<open>await\<close>: the three validations in order,
  then the state resets, the progress timer, and the request.
\<close>

definition handleFileUpload_begin :: "upload \<Rightarrow> upload" where
  "handleFileUpload_begin st =
     (case selectedFile st of
        None \<Rightarrow> st\<lparr> error := Some (str ''Please select a file to upload'') \<rparr>
      | Some f \<Rightarrow>
          if ftype f \<noteq> str ''application/pdf''
          then st\<lparr> error := Some (str ''Please upload a PDF file only'') \<rparr>
          else if fsize f > 10 * 1024 * 1024
          then st\<lparr> error := Some (str ''File size must be less than 10MB'') \<rparr>
          else st\<lparr> isLoading := True, error := None, uploadProgress := 0,
                    timers := timers st + 1, requests := requests st + 1 \<rparr>)"

text \<open>
  One firing of a running progress timer:
  \<open>setUploadProgress((prev) => Math.min(prev + 10, 90))\<close>.
\<close>

definition progressTick :: "upload \<Rightarrow> upload" where
  "progressTick st =
     (if timers st = 0 then st
      else st\<lparr> uploadProgress := min (uploadProgress st + 10) 90 \<rparr>)"

text \<open>
  How the awaited request ends: the \<open>fetch\<close> promise rejects (network failure, with the
  message of the error thrown), or a response arrives with a non-success status, or with a
  success status and a body that fails to parse, or with a success status and a payload.
\<close>

datatype outcome = Rejected jsstring | HttpFailure | BodyFailure jsstring | Payload

text \<open>
  \<open>handleFileUpload\<close> from the \<open>await\<close> on. \<open>clearInterval\<close> and
  \<open>setUploadProgress(100)\<close> stand after the \<open>await\<close> inside \<open>try\<close>, so a
  rejection jumps over both to \<open>catch\<close>; \<open>finally\<close> runs on every path.
\<close>

definition handleFileUpload_finally :: "upload \<Rightarrow> upload" where
  "handleFileUpload_finally st = st\<lparr> isLoading := False, resets := resets st + 1 \<rparr>"

definition handleFileUpload_settle :: "outcome \<Rightarrow> upload \<Rightarrow> upload" where
  "handleFileUpload_settle out st =
     (case out of
        Rejected msg \<Rightarrow> handleFileUpload_finally (st\<lparr> error := Some msg \<rparr>)
      | _ \<Rightarrow>
          (let st1 = st\<lparr> timers := timers st - 1, uploadProgress := 100 \<rparr>
           in case out of
                HttpFailure \<Rightarrow>
                  handleFileUpload_finally (st1\<lparr> error := Some (str ''Failed to parse resume'') \<rparr>)
              | BodyFailure msg \<Rightarrow> handleFileUpload_finally (st1\<lparr> error := Some msg \<rparr>)
              | _ \<Rightarrow>
                  handleFileUpload_finally
                    (st1\<lparr> success := Some (str ''Resume parsed successfully!'') \<rparr>)))"

text \<open>One pending timeout fires: \<open>setUploadProgress(0)\<close>.\<close>

definition progressReset :: "upload \<Rightarrow> upload" where
  "progressReset st =
     (if resets st = 0 then st else st\<lparr> uploadProgress := 0, resets := resets st - 1 \<rparr>)"

section \<open>Numbers\<close>

text \<open>
  A JavaScript number as far as the page computes with it. \<open>Fin r\<close> is the finite double
  whose value is the real \<open>r\<close>. A difference of two finite values is taken exactly: the
  double difference has the same sign and is zero exactly when the operands are equal, and
  the sort reads a comparator's result through its sign only.
\<close>

datatype number = Fin real | PosInf | NegInf | NaN

fun sub :: "number \<Rightarrow> number \<Rightarrow> number" where
  "sub (Fin a) (Fin b) = Fin (a - b)"
| "sub NaN y = NaN"
| "sub x NaN = NaN"
| "sub PosInf PosInf = NaN"
| "sub NegInf NegInf = NaN"
| "sub PosInf y = PosInf"
| "sub NegInf y = NegInf"
| "sub (Fin a) PosInf = NegInf"
| "sub (Fin a) NegInf = PosInf"

fun positive :: "number \<Rightarrow> bool" where
  "positive (Fin r) = (0 < r)"
| "positive PosInf = True"
| "positive NegInf = False"
| "positive NaN = False"

fun negative :: "number \<Rightarrow> bool" where
  "negative (Fin r) = (r < 0)"
| "negative NegInf = True"
| "negative PosInf = False"
| "negative NaN = False"

text \<open>\<open>v || 0\<close> on a number: the falsy numbers are zero and NaN.\<close>

fun orZero :: "number \<Rightarrow> number" where
  "orZero NaN = Fin 0"
| "orZero v = v"

text \<open>
  The number value of a natural number: below \<open>2^53\<close> it is exact, above it the
  nearest double with ties to the even significand, and infinity from \<open>2^1024\<close> on.
\<close>

fun bitLength :: "nat \<Rightarrow> nat" where
  "bitLength n = (if n = 0 then 0 else Suc (bitLength (n div 2)))"

declare bitLength.simps [simp del]

definition toDouble :: "nat \<Rightarrow> number" where
  "toDouble n =
     (if n < 2 ^ 53 then Fin (real n)
      else
        let e = bitLength n - 53;
            q = n div 2 ^ e;
            r = n mod 2 ^ e;
            half = 2 ^ (e - 1);
            m = (if half < r \<or> (r = half \<and> odd q) then q + 1 else q) * 2 ^ e
        in if 2 ^ 1024 \<le> m then PosInf else Fin (real m))"

definition isDigit :: "jschar \<Rightarrow> bool" where
  "isDigit c = (0x30 \<le> c \<and> c \<le> 0x39)"

definition digitsValue :: "jsstring \<Rightarrow> nat" where
  "digitsValue ds = foldl (\<lambda>n c. 10 * n + unat (c - 0x30)) 0 ds"

text \<open>
  \<open>Number.parseInt\<close> on a string that starts with a decimal digit or is empty (all the
  page passes to it): the digits up to the first other code unit, as a number; NaN when
  there is none.
\<close>

definition parseInt :: "jsstring \<Rightarrow> number" where
  "parseInt s =
     (let ds = takeWhile isDigit s in if ds = [] then NaN else toDouble (digitsValue ds))"

section \<open>Job records and the sort (page.tsx, sortedJobs)\<close>

record Job =
  position :: jsstring
  company :: jsstring
  salary :: jsstring
  location :: jsstring
  tags :: "jsstring list"
  apply_url :: jsstring
  date_posted :: jsstring
  description :: jsstring
  relevance_score :: number
  matched_keywords :: "jsstring list"

text \<open>
  \<open>Array.prototype.sort\<close> with a comparator. The sort reads the comparator's result
  \<open>v\<close> through its sign: the first argument goes before the second when \<open>v < 0\<close>,
  after it when \<open>v > 0\<close>, and the two compare equal otherwise (NaN counts as 0). The
  language requires the sort to be stable, and fixes the sorted order only for a comparator
  that is consistent on the elements; for any other comparator the order is left to the
  engine. So the engine's sort is a parameter of \<open>sortedJobs\<close>, and \<open>array_sort\<close>, a
  stable insertion sort, is the order that is fixed for a consistent comparator.
\<close>

fun insertSorted :: "('a \<Rightarrow> 'a \<Rightarrow> number) \<Rightarrow> 'a \<Rightarrow> 'a list \<Rightarrow> 'a list" where
  "insertSorted cmp x [] = [x]"
| "insertSorted cmp x (y # ys) =
     (if positive (cmp x y) then y # insertSorted cmp x ys else x # y # ys)"

definition array_sort :: "('a \<Rightarrow> 'a \<Rightarrow> number) \<Rightarrow> 'a list \<Rightarrow> 'a list" where
  "array_sort cmp xs = foldr (insertSorted cmp) xs []"

text \<open>
  A comparator is consistent on the elements of a list when it compares every element
  equal to itself, \<open>a\<close> before \<open>b\<close> exactly when \<open>b\<close> after \<open>a\<close>, and
  both "before" and "compares equal" are transitive.
\<close>

definition consistent :: "('a \<Rightarrow> 'a \<Rightarrow> number) \<Rightarrow> 'a list \<Rightarrow> bool" where
  "consistent cmp xs =
     list_all (\<lambda>a. list_all (\<lambda>b. list_all (\<lambda>c.
        \<not> negative (cmp a a) \<and> \<not> positive (cmp a a)
        \<and> (negative (cmp a b) \<longleftrightarrow> positive (cmp b a))
        \<and> (negative (cmp a b) \<and> negative (cmp b c) \<longrightarrow> negative (cmp a c))
        \<and> (\<not> negative (cmp a b) \<and> \<not> positive (cmp a b)
             \<and> \<not> negative (cmp b c) \<and> \<not> positive (cmp b c)
             \<longrightarrow> \<not> negative (cmp a c) \<and> \<not> positive (cmp a c))) xs) xs) xs"

text \<open>
  An engine's sort: binary insertion after the leading run, the procedure of TimSort on
  an array shorter than its minimal run length. The leading run is the longest prefix
  that is non-descending, or strictly descending and then reversed; each later element is
  placed by binary search in the part already ordered, to the right of the elements it
  does not go before. On a consistent comparator it returns the fixed order (proved
  below), so it is within the language's rules.
\<close>

function insertionPoint :: "('a \<Rightarrow> 'a \<Rightarrow> number) \<Rightarrow> 'a \<Rightarrow> 'a list \<Rightarrow> nat \<Rightarrow> nat \<Rightarrow> nat" where
  "insertionPoint cmp pivot w left right =
     (if left < right
      then (let mid = left + (right - left) div 2
            in if negative (cmp pivot (w ! mid))
               then insertionPoint cmp pivot w left mid
               else insertionPoint cmp pivot w (mid + 1) right)
      else left)"
  by pat_completeness auto
termination
  by (relation "measure (\<lambda>(cmp, pivot, w, left, right). right - left)") auto

declare insertionPoint.simps [simp del]

definition binaryInsert :: "('a \<Rightarrow> 'a \<Rightarrow> number) \<Rightarrow> 'a list \<Rightarrow> 'a \<Rightarrow> 'a list" where
  "binaryInsert cmp w pivot =
     (let i = insertionPoint cmp pivot w 0 (length w) in take i w @ [pivot] @ drop i w)"

fun runRest :: "('a \<Rightarrow> 'a \<Rightarrow> number) \<Rightarrow> bool \<Rightarrow> 'a \<Rightarrow> 'a list \<Rightarrow> nat" where
  "runRest cmp desc prev [] = 0"
| "runRest cmp desc prev (cur # xs) =
     (if negative (cmp cur prev) = desc then Suc (runRest cmp desc cur xs) else 0)"

fun binaryInsertionSort :: "('a \<Rightarrow> 'a \<Rightarrow> number) \<Rightarrow> 'a list \<Rightarrow> 'a list" where
  "binaryInsertionSort cmp (x # y # zs) =
     (let desc = negative (cmp y x);
          n = 2 + runRest cmp desc y zs;
          run = take n (x # y # zs)
      in foldl (binaryInsert cmp) (if desc then rev run else run) (drop n (x # y # zs)))"
| "binaryInsertionSort cmp xs = xs"

text \<open>\<open>a.salary.replace(/[^0-9]/g, "")\<close>\<close>

definition stripNonDigits :: "jsstring \<Rightarrow> jsstring" where
  "stripNonDigits s = filter isDigit s"

text \<open>
  The comparator of \<open>sortedJobs\<close>. \<open>getTime\<close> stands for
  \<open>new Date(s).getTime()\<close>, the host's date parsing (NaN for a date it cannot parse).
\<close>

definition compareJobs :: "(jsstring \<Rightarrow> number) \<Rightarrow> jsstring \<Rightarrow> Job \<Rightarrow> Job \<Rightarrow> number" where
  "compareJobs getTime sortBy a b =
     (if sortBy = str ''relevance_score'' then sub (relevance_score b) (relevance_score a)
      else if sortBy = str ''date_posted''
      then sub (getTime (date_posted b)) (getTime (date_posted a))
      else if sortBy = str ''salary''
      then (let aSalary = orZero (parseInt (stripNonDigits (salary a)));
                bSalary = orZero (parseInt (stripNonDigits (salary b)))
            in sub bSalary aSalary)
      else Fin 0)"

text \<open>
  \<open>[...jobs].sort(...)\<close>: the copy is sorted by the engine's sort, the job list
  itself is not touched.
\<close>

definition sortedJobs ::
  "((Job \<Rightarrow> Job \<Rightarrow> number) \<Rightarrow> Job list \<Rightarrow> Job list) \<Rightarrow>
   (jsstring \<Rightarrow> number) \<Rightarrow> jsstring \<Rightarrow> Job list \<Rightarrow> Job list" where
  "sortedJobs engineSort getTime sortBy jobs = engineSort (compareJobs getTime sortBy) jobs"

section \<open>The filter (page.tsx, filteredJobs)\<close>

text \<open>\<open>s.includes(t)\<close> on strings: \<open>t\<close> occurs in \<open>s\<close> at some position.\<close>

primrec string_includes :: "jsstring \<Rightarrow> jsstring \<Rightarrow> bool" where
  "string_includes [] t = (t = [])"
| "string_includes (c # cs) t = (prefix t (c # cs) \<or> string_includes cs t)"

text \<open>
  \<open>toLowerCase\<close> is the language's case mapping, taken as a parameter.
  \<open>asciiLower\<close> is its restriction to the ASCII letters, used where a concrete mapping
  is evaluated.
\<close>

definition asciiLower :: "jsstring \<Rightarrow> jsstring" where
  "asciiLower s = map (\<lambda>c. if 0x41 \<le> c \<and> c \<le> 0x5A then c + 0x20 else c) s"

definition filteredJobs ::
  "(jsstring \<Rightarrow> jsstring) \<Rightarrow> jsstring list \<Rightarrow> Job list \<Rightarrow> Job list" where
  "filteredJobs toLowerCase filterTags sortedList =
     filter (\<lambda>job.
        if length filterTags = 0 then True
        else list_ex (\<lambda>tag.
               list_ex (\<lambda>jobTag. string_includes (toLowerCase jobTag) (toLowerCase tag))
                 (tags job)
               \<or> list_ex (\<lambda>keyword. string_includes (toLowerCase keyword) (toLowerCase tag))
                   (matched_keywords job))
             filterTags)
       sortedList"

section \<open>Description sanitizer (page.tsx, stripHtmlTags)\<close>





text \<open>\<open>text.replace(/\s+/g, " ")\<close>\<close>

function collapseWhitespace :: "jsstring \<Rightarrow> jsstring" where
  "collapseWhitespace [] = []"
| "collapseWhitespace (c # cs) =
     (if isWhiteSpace c then 0x20 # collapseWhitespace (dropWhile isWhiteSpace cs)
      else c # collapseWhitespace cs)"
  by pat_completeness auto
termination
proof (relation "measure length")
  show "wf (measure length)" by simp
next
  fix c :: jschar and cs :: jsstring
  have "length (dropWhile isWhiteSpace cs) \<le> length cs" by (rule length_dropWhile_le)
  then show "(dropWhile isWhiteSpace cs, c # cs) \<in> measure length" by simp
next
  fix c :: jschar and cs :: jsstring
  show "(cs, c # cs) \<in> measure length" by simp
qed


section \<open>Export (page.tsx, handleExport)\<close>

text \<open>
  \<open>Math.round(job.relevance_score * 100) + '%'\<close>. The product of two doubles is a
  rounded product, the host's arithmetic; it is the parameter \<open>product\<close> of the export. \<open>Math.round\<close> gives
  the nearest integer, halves upward. The string of a number is given for NaN, the
  infinities and the integral values (in decimal digits, as the language prints them below
  \<open>10^21\<close>), which is all that \<open>Math.round\<close> returns.
\<close>

fun Math_round :: "number \<Rightarrow> number" where
  "Math_round (Fin r) = Fin (of_int \<lfloor>r + 1 / 2\<rfloor>)"
| "Math_round v = v"

function natToString :: "nat \<Rightarrow> jsstring" where
  "natToString n =
     (if n < 10 then [of_nat (48 + n)]
      else natToString (n div 10) @ [of_nat (48 + n mod 10)])"
  by pat_completeness auto
termination
  by (relation "measure id") auto

declare natToString.simps [simp del]

fun numberToString :: "number \<Rightarrow> jsstring" where
  "numberToString NaN = str ''NaN''"
| "numberToString PosInf = str ''Infinity''"
| "numberToString NegInf = str ''-Infinity''"
| "numberToString (Fin r) =
     (if r < 0 then str ''-'' @ natToString (nat \<lfloor>- r\<rfloor>) else natToString (nat \<lfloor>r\<rfloor>))"

definition percent :: "(number \<Rightarrow> number \<Rightarrow> number) \<Rightarrow> number \<Rightarrow> jsstring" where
  "percent product score = numberToString (Math_round (product score (Fin 100))) @ str ''%''"

text \<open>\<open>Array.prototype.join\<close> on an array of strings.\<close>

fun array_join :: "jsstring \<Rightarrow> jsstring list \<Rightarrow> jsstring" where
  "array_join sep [] = []"
| "array_join sep [x] = x"
| "array_join sep (x # y # ys) = x @ sep @ array_join sep (y # ys)"

definition headers :: "jsstring list" where
  "headers = [str ''Position'', str ''Company'', str ''Salary'', str ''Location'',
              str ''Date Posted'', str ''Relevance'', str ''Tags'', str ''Matched Keywords'']"

definition exportRow :: "(number \<Rightarrow> number \<Rightarrow> number) \<Rightarrow> Job \<Rightarrow> jsstring list" where
  "exportRow product job =
     [position job, company job, salary job, location job, date_posted job,
      percent product (relevance_score job),
      array_join (str ''; '') (tags job),
      array_join (str ''; '') (matched_keywords job)]"

text \<open>\<open>'"' + (v || '') + '"'\<close>: the empty string is the only falsy string.\<close>

definition quoteField :: "jsstring \<Rightarrow> jsstring" where
  "quoteField v = [0x22] @ (if v = [] then [] else v) @ [0x22]"

text \<open>\<open>e.map(v => ...).join(",")\<close>, the text of one row.\<close>

definition csvLine :: "jsstring list \<Rightarrow> jsstring" where
  "csvLine e = array_join (str '','') (map quoteField e)"

definition csvContent :: "(number \<Rightarrow> number \<Rightarrow> number) \<Rightarrow> Job list \<Rightarrow> jsstring" where
  "csvContent product jobs =
     array_join [0x0A] (map csvLine (headers # map (exportRow product) jobs))"

text \<open>
  \<open>handleExport\<close> reads the job list itself, not the sorted or filtered view. The
  result is the content of the file offered for download, \<open>None\<close> when the handler
  returns before producing one.
\<close>

definition handleExport ::
  "(number \<Rightarrow> number \<Rightarrow> number) \<Rightarrow> Job list \<Rightarrow> jsstring option" where
  "handleExport product jobs = (if length jobs = 0 then None else Some (csvContent product jobs))"

section \<open>Notions used in the statements\<close>

text \<open>A string that neither starts nor ends with a white space code unit.\<close>

definition trimmed :: "jsstring \<Rightarrow> bool" where
  "trimmed x = (x = [] \<or> (\<not> isWhiteSpace (hd x) \<and> \<not> isWhiteSpace (last x)))"


text \<open>What one criteria sequence satisfies in every reachable state.\<close>

definition criteria_ok :: "jsstring list \<Rightarrow> bool" where
  "criteria_ok xs = (distinct xs \<and> (\<forall>x\<in>set xs. x \<noteq> [] \<and> trim x = x))"

text \<open>A state whose selected file passes the three validations of the upload handler.\<close>

definition acceptable :: "upload \<Rightarrow> bool" where
  "acceptable st =
     (case selectedFile st of
        None \<Rightarrow> False
      | Some f \<Rightarrow> ftype f = str ''application/pdf'' \<and> fsize f \<le> 10 * 1024 * 1024)"

text \<open>
  \<open>t\<close> is a case-insensitive substring of \<open>s\<close>: the lower-cased \<open>t\<close> occurs
  in the lower-cased \<open>s\<close>.
\<close>

definition caseInsensitiveSubstring ::
  "(jsstring \<Rightarrow> jsstring) \<Rightarrow> jsstring \<Rightarrow> jsstring \<Rightarrow> bool" where
  "caseInsensitiveSubstring toLowerCase t s =
     (\<exists>ps ss. toLowerCase s = ps @ toLowerCase t @ ss)"

text \<open>
  The salary of the comparator: \<open>Number.parseInt(s.replace(/[^0-9]/g, "")) || 0\<close>; and
  the integer that the digits of a salary string denote (0 when it has no digit).
\<close>

definition salaryNumber :: "jsstring \<Rightarrow> number" where
  "salaryNumber s = orZero (parseInt (stripNonDigits s))"

definition salaryValue :: "jsstring \<Rightarrow> nat" where
  "salaryValue s = digitsValue (stripNonDigits s)"

text \<open>The key that the comparator of \<open>sortedJobs\<close> compares under each sort key.\<close>

definition sortKey :: "(jsstring \<Rightarrow> number) \<Rightarrow> jsstring \<Rightarrow> Job \<Rightarrow> number" where
  "sortKey getTime sortBy j =
     (if sortBy = str ''relevance_score'' then relevance_score j
      else if sortBy = str ''date_posted'' then getTime (date_posted j)
      else if sortBy = str ''salary'' then salaryNumber (salary j)
      else Fin 0)"

text \<open>
  The rank of an element under a comparator: how many elements of the list go before it.
\<close>

definition rank :: "('a \<Rightarrow> 'a \<Rightarrow> number) \<Rightarrow> 'a list \<Rightarrow> 'a \<Rightarrow> nat" where
  "rank cmp xs a = length (filter (\<lambda>b. negative (cmp b a)) xs)"

text \<open>
  An engine's sort that follows the language: on a consistent comparator it returns the
  fixed order. A job list is comparable under a sort key when no job has the key NaN (no
  unparseable date under the date key, no NaN score under the relevance key).
\<close>

definition conforming :: "((Job \<Rightarrow> Job \<Rightarrow> number) \<Rightarrow> Job list \<Rightarrow> Job list) \<Rightarrow> bool" where
  "conforming engineSort =
     (\<forall>cmp xs. consistent cmp xs \<longrightarrow> engineSort cmp xs = array_sort cmp xs)"

definition comparable :: "(jsstring \<Rightarrow> number) \<Rightarrow> jsstring \<Rightarrow> Job list \<Rightarrow> bool" where
  "comparable getTime sortBy jobs = (\<forall>j\<in>set jobs. sortKey getTime sortBy j \<noteq> NaN)"

text \<open>The order of the numbers; NaN is below and above nothing.\<close>

fun num_le :: "number \<Rightarrow> number \<Rightarrow> bool" where
  "num_le NaN y = False"
| "num_le x NaN = False"
| "num_le NegInf y = True"
| "num_le x PosInf = True"
| "num_le (Fin a) (Fin b) = (a \<le> b)"
| "num_le PosInf y = False"
| "num_le (Fin a) NegInf = False"

text \<open>
  Data for the examples: a job with the given position, salary, score, tags and matched
  keywords, and a host date parser that parses nothing.
\<close>

definition exampleJob ::
  "jsstring \<Rightarrow> jsstring \<Rightarrow> number \<Rightarrow> jsstring list \<Rightarrow> jsstring list \<Rightarrow> Job" where
  "exampleJob p sal score ts ks =
     \<lparr> position = p, company = str ''Acme'', salary = sal, location = str ''Remote'',
       tags = ts, apply_url = str ''https://example.org/apply'',
       date_posted = str ''2024-05-01'', description = str ''<p>Work</p>'',
       relevance_score = score, matched_keywords = ks \<rparr>"

definition unparsed :: "jsstring \<Rightarrow> number" where
  "unparsed s = NaN"

text \<open>
  A host date parser for the examples (the times of five days, NaN for anything else),
  and a job with a given position and date.
\<close>

definition exampleTime :: "jsstring \<Rightarrow> number" where
  "exampleTime s =
     (if s = str ''2024-01-01'' then Fin 1704067200000
      else if s = str ''2024-03-01'' then Fin 1709251200000
      else if s = str ''2024-04-01'' then Fin 1711929600000
      else if s = str ''2024-05-01'' then Fin 1714521600000
      else if s = str ''2024-10-01'' then Fin 1727740800000
      else NaN)"

definition datedJob :: "jsstring \<Rightarrow> jsstring \<Rightarrow> Job" where
  "datedJob p d = (exampleJob p [] (Fin (1 / 2)) [] [])\<lparr> date_posted := d \<rparr>"

text \<open>The product of two finite numbers where no rounding occurs, for the examples.\<close>

fun exactTimes :: "number \<Rightarrow> number \<Rightarrow> number" where
  "exactTimes (Fin a) (Fin b) = Fin (a * b)"
| "exactTimes x y = NaN"

text \<open>
  The number of lines of a document (one more than its line feeds), and a job none of
  whose exported text fields contains a line feed.
\<close>

definition lineCount :: "jsstring \<Rightarrow> nat" where
  "lineCount doc = Suc (length (filter (\<lambda>c. c = 0x0A) doc))"

definition lineFeeds :: "jsstring \<Rightarrow> nat" where
  "lineFeeds s = length (filter (\<lambda>c. c = 0x0A) s)"

definition exportedClean :: "Job \<Rightarrow> bool" where
  "exportedClean job =
     (0x0A \<notin> set (position job) \<and> 0x0A \<notin> set (company job) \<and> 0x0A \<notin> set (salary job)
      \<and> 0x0A \<notin> set (location job) \<and> 0x0A \<notin> set (date_posted job)
      \<and> (\<forall>t\<in>set (tags job). 0x0A \<notin> set t)
      \<and> (\<forall>k\<in>set (matched_keywords job). 0x0A \<notin> set k))"

section \<open>Properties of the preference store\<close>

lemma str_theme_distinct:
  "str ''dark'' \<noteq> str ''system''" "str ''light'' \<noteq> str ''system''"
  "str ''dark'' \<noteq> str ''light''"
  by (simp_all add: str_def)

lemma effectiveTheme_cases:
  "effectiveTheme a (str ''system'') = ambient a"
  "p \<noteq> str ''system'' \<Longrightarrow> effectiveTheme a p = p"
  by (simp_all add: effectiveTheme_def)

lemma ambient_binary: "ambient a = str ''dark'' \<or> ambient a = str ''light''"
  by (simp add: ambient_def)

lemma themeEffect_fields:
  "resolvedTheme (themeEffect a attr st) = effectiveTheme a (theme st)"
  "localStorage (themeEffect a attr st) (str ''theme'') = Some (theme st)"
  "theme (themeEffect a attr st) = theme st"
  by (simp_all add: themeEffect_def Let_def)

text \<open>
  C6. For a preference \<open>p\<close> among dark, light and system and an ambient signal
  \<open>a\<close> (the media query matches: dark; it does not: light), the effect resolves
  \<open>system\<close> to dark when the signal is dark and to light when it is light, and any
  other preference to itself, whatever the signal; so the resolved value is dark or light.
  A change of the preference through \<open>setTheme\<close> leaves the raw preference under the
  storage key: for \<open>system\<close> the stored value is \<open>system\<close>, not the resolved
  value. The effect resolves and stores the preference of any state in the same way.
\<close>

theorem theme_resolved_and_persisted:
  assumes "p = str ''dark'' \<or> p = str ''light'' \<or> p = str ''system''"
    and "p \<noteq> theme st"
  shows "resolvedTheme (setTheme a attr p st) = (if p = str ''system'' then ambient a else p)
       \<and> (resolvedTheme (setTheme a attr p st) = str ''dark''
            \<or> resolvedTheme (setTheme a attr p st) = str ''light'')
       \<and> theme (setTheme a attr p st) = p
       \<and> localStorage (setTheme a attr p st) (str ''theme'') = Some p
       \<and> ambient a = (if a then str ''dark'' else str ''light'')
       \<and> resolvedTheme (setTheme a attr p st)
           = (if p = str ''system'' then (if a then str ''dark'' else str ''light'') else p)
       \<and> (p = str ''system'' \<longrightarrow>
            localStorage (setTheme a attr p st) (str ''theme'')
            \<noteq> Some (resolvedTheme (setTheme a attr p st)))
       \<and> resolvedTheme (themeEffect a attr st)
           = (if theme st = str ''system'' then (if a then str ''dark'' else str ''light'')
              else theme st)
       \<and> localStorage (themeEffect a attr st) (str ''theme'') = Some (theme st)"
proof -
  have run: "setTheme a attr p st = themeEffect a attr (st\<lparr> theme := p \<rparr>)"
    using assms(2) by (simp add: setTheme_def)
  have res: "resolvedTheme (setTheme a attr p st) = effectiveTheme a p"
    by (simp add: run themeEffect_fields)
  have val: "effectiveTheme a p = (if p = str ''system'' then ambient a else p)"
    by (simp add: effectiveTheme_def)
  have amb: "ambient a = (if a then str ''dark'' else str ''light'')"
    by (simp add: ambient_def)
  have bin: "effectiveTheme a p = str ''dark'' \<or> effectiveTheme a p = str ''light''"
    using assms(1) ambient_binary [of a] str_theme_distinct
    by (auto simp: effectiveTheme_def)
  have c1: "resolvedTheme (setTheme a attr p st) = (if p = str ''system'' then ambient a else p)"
    using res val by simp
  have c2: "resolvedTheme (setTheme a attr p st) = str ''dark''
            \<or> resolvedTheme (setTheme a attr p st) = str ''light''"
    using res bin by simp
  have c3: "theme (setTheme a attr p st) = p" by (simp add: run themeEffect_fields)
  have c4: "localStorage (setTheme a attr p st) (str ''theme'') = Some p"
    by (simp add: run themeEffect_fields)
  have c6: "resolvedTheme (setTheme a attr p st)
           = (if p = str ''system'' then (if a then str ''dark'' else str ''light'') else p)"
    using c1 amb by simp
  have c7: "p = str ''system'' \<longrightarrow>
            localStorage (setTheme a attr p st) (str ''theme'')
            \<noteq> Some (resolvedTheme (setTheme a attr p st))"
    using c2 c4 str_theme_distinct by auto
  have c8: "resolvedTheme (themeEffect a attr st)
           = (if theme st = str ''system'' then (if a then str ''dark'' else str ''light'')
              else theme st)"
    by (simp add: themeEffect_fields effectiveTheme_def amb)
  have c9: "localStorage (themeEffect a attr st) (str ''theme'') = Some (theme st)"
    by (simp add: themeEffect_fields)
  show ?thesis
    by (intro conjI) (fact c1 c2 c3 c4 amb c6 c7 c8 c9)+
qed

theorem theme_resolved_and_persisted_witness:
  "(str ''system'' = str ''dark'' \<or> str ''system'' = str ''light'' \<or> str ''system'' = str ''system'')
   \<and> str ''system'' \<noteq> theme \<lparr> theme = str ''light'', resolvedTheme = str ''light'',
         classList = [str ''light''], localStorage = Map.empty \<rparr>
   \<and> resolvedTheme (setTheme True (str ''class'') (str ''system'')
         \<lparr> theme = str ''light'', resolvedTheme = str ''light'',
           classList = [str ''light''], localStorage = Map.empty \<rparr>) = str ''dark''
   \<and> localStorage (setTheme True (str ''class'') (str ''system'')
         \<lparr> theme = str ''light'', resolvedTheme = str ''light'',
           classList = [str ''light''], localStorage = Map.empty \<rparr>) (str ''theme'')
       = Some (str ''system'')
   \<and> resolvedTheme (setTheme False (str ''class'') (str ''system'')
         \<lparr> theme = str ''light'', resolvedTheme = str ''light'',
           classList = [str ''light''], localStorage = Map.empty \<rparr>) = str ''light''
   \<and> localStorage (setTheme False (str ''class'') (str ''system'')
         \<lparr> theme = str ''light'', resolvedTheme = str ''light'',
           classList = [str ''light''], localStorage = Map.empty \<rparr>) (str ''theme'')
       = Some (str ''system'')
   \<and> (str ''dark'' = str ''dark'' \<or> str ''dark'' = str ''light'' \<or> str ''dark'' = str ''system'')
   \<and> str ''dark'' \<noteq> theme \<lparr> theme = str ''light'', resolvedTheme = str ''light'',
         classList = [str ''light''], localStorage = Map.empty \<rparr>
   \<and> resolvedTheme (setTheme False (str ''class'') (str ''dark'')
         \<lparr> theme = str ''light'', resolvedTheme = str ''light'',
           classList = [str ''light''], localStorage = Map.empty \<rparr>) = str ''dark''
   \<and> localStorage (setTheme False (str ''class'') (str ''dark'')
         \<lparr> theme = str ''light'', resolvedTheme = str ''light'',
           classList = [str ''light''], localStorage = Map.empty \<rparr>) (str ''theme'')
       = Some (str ''dark'')
   \<and> (str ''light'' = str ''dark'' \<or> str ''light'' = str ''light'' \<or> str ''light'' = str ''system'')
   \<and> str ''light'' \<noteq> theme \<lparr> theme = str ''system'', resolvedTheme = str ''dark'',
         classList = [str ''dark''], localStorage = [str ''theme'' \<mapsto> str ''system''] \<rparr>
   \<and> resolvedTheme (setTheme True (str ''class'') (str ''light'')
         \<lparr> theme = str ''system'', resolvedTheme = str ''dark'',
           classList = [str ''dark''], localStorage = [str ''theme'' \<mapsto> str ''system''] \<rparr>)
       = str ''light''
   \<and> localStorage (setTheme True (str ''class'') (str ''light'')
         \<lparr> theme = str ''system'', resolvedTheme = str ''dark'',
           classList = [str ''dark''], localStorage = [str ''theme'' \<mapsto> str ''system''] \<rparr>)
         (str ''theme'')
       = Some (str ''light'')"
proof -
  let ?st = "\<lparr> theme = str ''light'', resolvedTheme = str ''light'',
         classList = [str ''light''], localStorage = Map.empty \<rparr>"
  let ?sys = "\<lparr> theme = str ''system'', resolvedTheme = str ''dark'',
         classList = [str ''dark''], localStorage = [str ''theme'' \<mapsto> str ''system''] \<rparr>"
  have h1: "str ''system'' = str ''dark'' \<or> str ''system'' = str ''light''
            \<or> str ''system'' = str ''system''" by simp
  have h2: "str ''system'' \<noteq> theme ?st" by (simp add: str_def)
  have g1: "str ''dark'' = str ''dark'' \<or> str ''dark'' = str ''light''
            \<or> str ''dark'' = str ''system''" by simp
  have g2: "str ''dark'' \<noteq> theme ?st" by (simp add: str_def)
  have f1: "str ''light'' = str ''dark'' \<or> str ''light'' = str ''light''
            \<or> str ''light'' = str ''system''" by simp
  have f2: "str ''light'' \<noteq> theme ?sys" by (simp add: str_def)
  have ne: "str ''dark'' \<noteq> str ''system''" "str ''light'' \<noteq> str ''system''"
    by (simp_all add: str_def)
  have a: "resolvedTheme (setTheme True (str ''class'') (str ''system'') ?st) = str ''dark''
         \<and> localStorage (setTheme True (str ''class'') (str ''system'') ?st) (str ''theme'')
           = Some (str ''system'')"
    using theme_resolved_and_persisted [OF h1 h2, of True "str ''class''"] by simp
  have b: "resolvedTheme (setTheme False (str ''class'') (str ''system'') ?st) = str ''light''
         \<and> localStorage (setTheme False (str ''class'') (str ''system'') ?st) (str ''theme'')
           = Some (str ''system'')"
    using theme_resolved_and_persisted [OF h1 h2, of False "str ''class''"] by simp
  have c: "resolvedTheme (setTheme False (str ''class'') (str ''dark'') ?st) = str ''dark''
         \<and> localStorage (setTheme False (str ''class'') (str ''dark'') ?st) (str ''theme'')
           = Some (str ''dark'')"
    using ne theme_resolved_and_persisted [OF g1 g2, of False "str ''class''"] by simp
  have d: "resolvedTheme (setTheme True (str ''class'') (str ''light'') ?sys) = str ''light''
         \<and> localStorage (setTheme True (str ''class'') (str ''light'') ?sys) (str ''theme'')
           = Some (str ''light'')"
    using ne theme_resolved_and_persisted [OF f1 f2, of True "str ''class''"] by simp
  show ?thesis
    by (intro conjI)
      (fact h1 h2 g1 g2 f1 f2 a [THEN conjunct1] a [THEN conjunct2]
        b [THEN conjunct1] b [THEN conjunct2] c [THEN conjunct1] c [THEN conjunct2]
        d [THEN conjunct1] d [THEN conjunct2])+
qed

section \<open>Properties of trimming\<close>

lemma dropWhile_unchanged: "xs = [] \<or> \<not> P (hd xs) \<Longrightarrow> dropWhile P xs = xs"
  by (cases xs) auto

lemma last_dropWhile_kept: "dropWhile P xs \<noteq> [] \<Longrightarrow> last (dropWhile P xs) = last xs"
  by (induction xs) auto

lemma trimEnd_last: "trimEnd s \<noteq> [] \<Longrightarrow> \<not> isWhiteSpace (last (trimEnd s))"
  unfolding trimEnd_def
  by (metis hd_dropWhile hd_rev rev_is_Nil_conv rev_rev_ident)

lemma trimmed_trim: "trimmed (trim s)"
proof (cases "trim s = []")
  case True
  then show ?thesis by (simp add: trimmed_def)
next
  case False
  then have ne: "dropWhile isWhiteSpace (trimEnd s) \<noteq> []"
    by (simp add: trim_def trimStart_def)
  then have te: "trimEnd s \<noteq> []" by auto
  have h: "\<not> isWhiteSpace (hd (trim s))"
    using ne hd_dropWhile [of isWhiteSpace "trimEnd s"] by (simp add: trim_def trimStart_def)
  have l: "last (trim s) = last (trimEnd s)"
    using ne by (simp add: trim_def trimStart_def last_dropWhile_kept)
  show ?thesis using h l trimEnd_last [OF te] by (simp add: trimmed_def)
qed

lemma trim_trimmed:
  assumes "trimmed x"
  shows "trim x = x"
proof (cases "x = []")
  case True
  then show ?thesis by (simp add: trim_def trimStart_def trimEnd_def)
next
  case False
  have "\<not> isWhiteSpace (hd (rev x))"
    using assms False by (simp add: trimmed_def hd_rev)
  then have e: "trimEnd x = x" by (simp add: trimEnd_def dropWhile_unchanged)
  show ?thesis
    using assms False by (simp add: trim_def e trimStart_def trimmed_def dropWhile_unchanged)
qed

lemma trim_idem: "trim (trim s) = trim s"
  by (rule trim_trimmed [OF trimmed_trim])

section \<open>Properties of the filter-builder\<close>

lemma getCriteria_setCriteria:
  "getCriteria k st = Some xs \<Longrightarrow>
   getCriteria k' (setCriteria k ys st) = (if k' = k then Some ys else getCriteria k' st)"
  by (cases k; cases k') simp_all

lemma setCriteria_same: "getCriteria k st = Some xs \<Longrightarrow> setCriteria k xs st = st"
  by (cases k) auto

lemma criteria_ok_append:
  "criteria_ok xs \<Longrightarrow> trim v \<noteq> [] \<Longrightarrow> trim v \<notin> set xs \<Longrightarrow> criteria_ok (xs @ [trim v])"
  by (auto simp: criteria_ok_def trim_idem)

lemma criteria_ok_filter: "criteria_ok xs \<Longrightarrow> criteria_ok (filter P xs)"
  by (auto simp: criteria_ok_def)

lemma add_keeps_ok:
  assumes "\<And>k xs. getCriteria k st = Some xs \<Longrightarrow> criteria_ok xs"
    and "getCriteria k' (addToSearchFilter k v st) = Some ys"
  shows "criteria_ok ys"
proof (cases "getCriteria k st")
  case None
  then show ?thesis using assms by (simp add: addToSearchFilter_def)
next
  case (Some xs)
  show ?thesis
  proof (cases "trim v \<noteq> [] \<and> trim v \<notin> set xs")
    case False
    then have "addToSearchFilter k v st = st" using Some by (auto simp: addToSearchFilter_def)
    then show ?thesis using assms by simp
  next
    case True
    then have upd: "addToSearchFilter k v st = setCriteria k (xs @ [trim v]) st"
      using Some by (simp add: addToSearchFilter_def)
    show ?thesis
    proof (cases "k' = k")
      case True
      then have "ys = xs @ [trim v]"
        using assms(2) upd getCriteria_setCriteria [OF Some] by simp
      then show ?thesis
        using criteria_ok_append assms(1) [OF Some] \<open>trim v \<noteq> [] \<and> trim v \<notin> set xs\<close> by simp
    next
      case False
      then have "getCriteria k' st = Some ys"
        using assms(2) upd getCriteria_setCriteria [OF Some] by simp
      then show ?thesis by (rule assms(1))
    qed
  qed
qed

lemma remove_keeps_ok:
  assumes "\<And>k xs. getCriteria k st = Some xs \<Longrightarrow> criteria_ok xs"
    and "removeFromSearchFilter k v st = Inr st'"
    and "getCriteria k' st' = Some ys"
  shows "criteria_ok ys"
proof (cases "getCriteria k st")
  case None
  then show ?thesis using assms(2) by (simp add: removeFromSearchFilter_def)
next
  case (Some xs)
  then have upd: "st' = setCriteria k (filter (\<lambda>item. item \<noteq> v) xs) st"
    using assms(2) by (simp add: removeFromSearchFilter_def)
  show ?thesis
  proof (cases "k' = k")
    case True
    then have "ys = filter (\<lambda>item. item \<noteq> v) xs"
      using assms(3) upd getCriteria_setCriteria [OF Some] by simp
    then show ?thesis using criteria_ok_filter assms(1) [OF Some] by simp
  next
    case False
    then have "getCriteria k' st = Some ys"
      using assms(3) upd getCriteria_setCriteria [OF Some] by simp
    then show ?thesis by (rule assms(1))
  qed
qed

lemma getCriteria_setLimit: "getCriteria k (setLimit n st) = getCriteria k st"
  by (cases k) (simp_all add: setLimit_def)

lemma reachable_criteria_ok: "reachable st \<Longrightarrow> getCriteria k st = Some xs \<Longrightarrow> criteria_ok xs"
proof (induction arbitrary: k xs rule: reachable.induct)
  case reach_init
  then show ?case by (cases k) (simp_all add: initialFilters_def criteria_ok_def)
next
  case (reach_add st k0 v)
  show ?case by (rule add_keeps_ok [OF reach_add.IH reach_add.prems])
next
  case (reach_remove st k0 v st')
  show ?case by (rule remove_keeps_ok [OF reach_remove.IH reach_remove.hyps(2) reach_remove.prems])
next
  case (reach_limit st n)
  then show ?case by (simp add: getCriteria_setLimit)
qed

lemma filter_neq_remove1: "distinct xs \<Longrightarrow> filter (\<lambda>item. item \<noteq> v) xs = remove1 v xs"
  by (induction xs) (auto simp: remove1_idem)

text \<open>
  C10. In every state reached from the empty initial state by add, remove and the limit
  slider, each criteria sequence has no duplicate, and each of its elements is non-empty,
  equals its own trim, and neither starts nor ends with a white space code unit.
\<close>

theorem filter_builder_invariant:
  assumes "reachable st" and "getCriteria k st = Some xs"
  shows "distinct xs \<and>
         (\<forall>x\<in>set xs. x \<noteq> [] \<and> trim x = x
                      \<and> \<not> isWhiteSpace (hd x) \<and> \<not> isWhiteSpace (last x))"
proof -
  have ok: "criteria_ok xs" by (rule reachable_criteria_ok [OF assms])
  have "\<not> isWhiteSpace (hd x) \<and> \<not> isWhiteSpace (last x)" if "x \<in> set xs" for x
  proof -
    have "x \<noteq> []" "trim x = x" using ok that by (auto simp: criteria_ok_def)
    then show ?thesis using trimmed_trim [of x] by (simp add: trimmed_def)
  qed
  then show ?thesis using ok by (auto simp: criteria_ok_def)
qed

lemma example_filters_skills:
  "getCriteria Skills
     (addToSearchFilter Skills (str '' sql '')
       (addToSearchFilter Skills (str ''python'')
         (addToSearchFilter Skills (str ''python'') initialFilters)))
   = Some [str ''python'', str ''sql'']"
  by (simp add: addToSearchFilter_def initialFilters_def trim_def trimStart_def trimEnd_def
      isWhiteSpace_def str_def)

lemma example_filters_reachable:
  "reachable
     (addToSearchFilter Skills (str '' sql '')
       (addToSearchFilter Skills (str ''python'')
         (addToSearchFilter Skills (str ''python'') initialFilters)))"
  by (intro reach_add reach_init)

theorem filter_builder_invariant_witness:
  "reachable
     (addToSearchFilter Skills (str '' sql '')
       (addToSearchFilter Skills (str ''python'')
         (addToSearchFilter Skills (str ''python'') initialFilters)))
   \<and> getCriteria Skills
       (addToSearchFilter Skills (str '' sql '')
         (addToSearchFilter Skills (str ''python'')
           (addToSearchFilter Skills (str ''python'') initialFilters)))
     = Some [str ''python'', str ''sql'']
   \<and> distinct [str ''python'', str ''sql'']
   \<and> trim (str ''python'') = str ''python'' \<and> trim (str ''sql'') = str ''sql''
   \<and> \<not> isWhiteSpace (hd (str ''sql'')) \<and> \<not> isWhiteSpace (last (str ''sql''))"
  using example_filters_reachable example_filters_skills
    filter_builder_invariant [OF example_filters_reachable example_filters_skills]
  by simp

text \<open>
  C7. In a reachable state, remove on a criteria field deletes the first exact match of
  the value and keeps every other element in order (the other fields are untouched); when
  the value does not occur, the state is unchanged.
\<close>

theorem remove_deletes_first_match:
  assumes "reachable st" and "getCriteria k st = Some xs"
  shows "removeFromSearchFilter k v st = Inr (setCriteria k (remove1 v xs) st)
       \<and> (v \<notin> set xs \<longrightarrow> removeFromSearchFilter k v st = Inr st)"
proof -
  have "distinct xs"
    using reachable_criteria_ok [OF assms] by (simp add: criteria_ok_def)
  then have eq: "filter (\<lambda>item. item \<noteq> v) xs = remove1 v xs"
    by (rule filter_neq_remove1)
  have run: "removeFromSearchFilter k v st = Inr (setCriteria k (remove1 v xs) st)"
    using assms(2) eq by (simp add: removeFromSearchFilter_def)
  have "setCriteria k (remove1 v xs) st = st" if "v \<notin> set xs"
    using that assms(2) by (simp add: remove1_idem setCriteria_same)
  then show ?thesis using run by simp
qed

theorem remove_deletes_first_match_witness:
  "reachable
     (addToSearchFilter Skills (str '' sql '')
       (addToSearchFilter Skills (str ''python'')
         (addToSearchFilter Skills (str ''python'') initialFilters)))
   \<and> getCriteria Skills
       (addToSearchFilter Skills (str '' sql '')
         (addToSearchFilter Skills (str ''python'')
           (addToSearchFilter Skills (str ''python'') initialFilters)))
     = Some [str ''python'', str ''sql'']
   \<and> removeFromSearchFilter Skills (str ''python'')
       (addToSearchFilter Skills (str '' sql '')
         (addToSearchFilter Skills (str ''python'')
           (addToSearchFilter Skills (str ''python'') initialFilters)))
     = Inr (setCriteria Skills [str ''sql'']
         (addToSearchFilter Skills (str '' sql '')
           (addToSearchFilter Skills (str ''python'')
             (addToSearchFilter Skills (str ''python'') initialFilters))))
   \<and> str ''java'' \<notin> set [str ''python'', str ''sql'']
   \<and> removeFromSearchFilter Skills (str ''java'')
       (addToSearchFilter Skills (str '' sql '')
         (addToSearchFilter Skills (str ''python'')
           (addToSearchFilter Skills (str ''python'') initialFilters)))
     = Inr (addToSearchFilter Skills (str '' sql '')
         (addToSearchFilter Skills (str ''python'')
           (addToSearchFilter Skills (str ''python'') initialFilters)))"
proof -
  have absent: "str ''java'' \<notin> set [str ''python'', str ''sql'']"
    by (simp add: str_def)
  show ?thesis
    using example_filters_reachable example_filters_skills absent
      remove_deletes_first_match [OF example_filters_reachable example_filters_skills,
        of "str ''python''"]
      remove_deletes_first_match [OF example_filters_reachable example_filters_skills,
        of "str ''java''"]
    by simp
qed

section \<open>Properties of the upload progress\<close>

lemma begin_acceptable:
  assumes "acceptable st"
  shows "handleFileUpload_begin st
         = st\<lparr> isLoading := True, error := None, uploadProgress := 0,
               timers := timers st + 1, requests := requests st + 1 \<rparr>"
  using assms
  by (auto simp: acceptable_def handleFileUpload_begin_def split: option.splits)

lemma tick_timers: "timers (progressTick s) = timers s"
  by (simp add: progressTick_def)

lemma tick_progress:
  "0 < timers s \<Longrightarrow> uploadProgress (progressTick s) = min (uploadProgress s + 10) 90"
  by (simp add: progressTick_def)

lemma ticks_timers: "timers ((progressTick ^^ n) st) = timers st"
  by (induction n) (simp_all add: tick_timers)

lemma ticks_progress:
  assumes "0 < timers st" and "uploadProgress st = 0"
  shows "uploadProgress ((progressTick ^^ n) st) = min (10 * int n) 90"
proof (induction n)
  case 0
  then show ?case using assms(2) by simp
next
  case (Suc n)
  have "0 < timers ((progressTick ^^ n) st)"
    using assms(1) by (simp add: ticks_timers)
  then have "uploadProgress (progressTick ((progressTick ^^ n) st))
             = min (uploadProgress ((progressTick ^^ n) st) + 10) 90"
    by (rule tick_progress)
  then show ?case using Suc by simp
qed

lemma settle_response:
  assumes "\<forall>msg. out \<noteq> Rejected msg"
  shows "uploadProgress (handleFileUpload_settle out st) = 100"
    and "timers (handleFileUpload_settle out st) = timers st - 1"
  using assms
  by (cases out; simp add: handleFileUpload_settle_def handleFileUpload_finally_def Let_def)+

lemma settle_resets: "resets (handleFileUpload_settle out st) = resets st + 1"
  by (cases out) (simp_all add: handleFileUpload_settle_def handleFileUpload_finally_def Let_def)

lemma settle_rejected:
  "uploadProgress (handleFileUpload_settle (Rejected m) st) = uploadProgress st"
  "timers (handleFileUpload_settle (Rejected m) st) = timers st"
  by (simp_all add: handleFileUpload_settle_def handleFileUpload_finally_def)

lemma reset_after_settle:
  "uploadProgress (progressReset (handleFileUpload_settle out st)) = 0"
  by (simp add: progressReset_def settle_resets)

lemma example_upload_acceptable:
  "acceptable (initialUpload\<lparr> selectedFile :=
       Some \<lparr> ftype = str ''application/pdf'', fsize = 2048 \<rparr> \<rparr>)"
  by (simp add: acceptable_def initialUpload_def)

text \<open>
  C8 as stated fails: with a file that passes validation, nine firings of the progress
  timer while the request is outstanding bring the indicator to exactly 90.
\<close>

theorem upload_progress_reaches_90:
  "uploadProgress ((progressTick ^^ 9) (handleFileUpload_begin
       (initialUpload\<lparr> selectedFile :=
          Some \<lparr> ftype = str ''application/pdf'', fsize = 2048 \<rparr> \<rparr>))) = 90"
proof -
  let ?st = "initialUpload\<lparr> selectedFile :=
       Some \<lparr> ftype = str ''application/pdf'', fsize = 2048 \<rparr> \<rparr>"
  have b: "0 < timers (handleFileUpload_begin ?st)"
          "uploadProgress (handleFileUpload_begin ?st) = 0"
    by (simp_all add: begin_acceptable [OF example_upload_acceptable])
  show ?thesis using ticks_progress [OF b, of 9] by simp
qed

text \<open>
  C8, amended. After a handler run that passes validation, \<open>n\<close> firings of the progress
  timer leave the indicator at \<open>min (10 n) 90\<close>: it advances in steps of 10 up to the
  cap 90 and never exceeds it. A response (any status, any body) sets it to 100; a rejected
  request leaves it where the timer put it. Every outcome schedules one reset, and the
  reset sets the indicator to 0.
\<close>

theorem upload_progress_capped:
  assumes "acceptable st"
  shows "uploadProgress ((progressTick ^^ n) (handleFileUpload_begin st)) = min (10 * int n) 90
       \<and> uploadProgress ((progressTick ^^ n) (handleFileUpload_begin st)) \<le> 90
       \<and> uploadProgress (handleFileUpload_settle HttpFailure s) = 100
       \<and> uploadProgress (handleFileUpload_settle (BodyFailure m) s) = 100
       \<and> uploadProgress (handleFileUpload_settle Payload s) = 100
       \<and> uploadProgress (handleFileUpload_settle (Rejected m) s) = uploadProgress s
       \<and> resets (handleFileUpload_settle out s) = resets s + 1
       \<and> uploadProgress (progressReset (handleFileUpload_settle out s)) = 0"
proof -
  have b: "0 < timers (handleFileUpload_begin st)"
          "uploadProgress (handleFileUpload_begin st) = 0"
    by (simp_all add: begin_acceptable [OF assms])
  have t: "uploadProgress ((progressTick ^^ n) (handleFileUpload_begin st))
           = min (10 * int n) 90"
    by (rule ticks_progress [OF b])
  have r: "uploadProgress (handleFileUpload_settle HttpFailure s) = 100"
          "uploadProgress (handleFileUpload_settle (BodyFailure m) s) = 100"
          "uploadProgress (handleFileUpload_settle Payload s) = 100"
    by (simp_all add: settle_response)
  show ?thesis
    using t r by (simp add: settle_rejected settle_resets reset_after_settle)
qed

theorem upload_progress_capped_witness:
  "acceptable (initialUpload\<lparr> selectedFile :=
       Some \<lparr> ftype = str ''application/pdf'', fsize = 2048 \<rparr> \<rparr>)
   \<and> uploadProgress ((progressTick ^^ 3) (handleFileUpload_begin
        (initialUpload\<lparr> selectedFile :=
           Some \<lparr> ftype = str ''application/pdf'', fsize = 2048 \<rparr> \<rparr>))) = 30
   \<and> uploadProgress ((progressTick ^^ 12) (handleFileUpload_begin
        (initialUpload\<lparr> selectedFile :=
           Some \<lparr> ftype = str ''application/pdf'', fsize = 2048 \<rparr> \<rparr>))) = 90"
  using example_upload_acceptable
    upload_progress_capped [OF example_upload_acceptable, of 3]
    upload_progress_capped [OF example_upload_acceptable, of 12]
  by simp

text \<open>
  C9. The code at the failing input: a file that passes validation and a request that is
  rejected. The progress timer that the handler started is still running after the
  handler has finished (a response would have cleared it), and after the reset it drives
  the indicator up again.
\<close>

theorem upload_timer_left_running:
  "timers (handleFileUpload_settle (Rejected (str ''Failed to fetch''))
      (handleFileUpload_begin (initialUpload\<lparr> selectedFile :=
         Some \<lparr> ftype = str ''application/pdf'', fsize = 2048 \<rparr> \<rparr>))) = 1
   \<and> timers (handleFileUpload_settle Payload
      (handleFileUpload_begin (initialUpload\<lparr> selectedFile :=
         Some \<lparr> ftype = str ''application/pdf'', fsize = 2048 \<rparr> \<rparr>))) = 0
   \<and> uploadProgress (progressTick (progressReset
        (handleFileUpload_settle (Rejected (str ''Failed to fetch''))
          (handleFileUpload_begin (initialUpload\<lparr> selectedFile :=
             Some \<lparr> ftype = str ''application/pdf'', fsize = 2048 \<rparr> \<rparr>))))) = 10"
proof -
  let ?b = "handleFileUpload_begin (initialUpload\<lparr> selectedFile :=
         Some \<lparr> ftype = str ''application/pdf'', fsize = 2048 \<rparr> \<rparr>)"
  have t: "timers ?b = 1"
    by (simp add: begin_acceptable [OF example_upload_acceptable]) (simp add: initialUpload_def)
  have left: "timers (handleFileUpload_settle (Rejected (str ''Failed to fetch'')) ?b) = 1"
    using t by (simp only: settle_rejected)
  have cleared: "timers (handleFileUpload_settle Payload ?b) = 0"
    using t by (simp add: settle_response)
  have "timers (progressReset
          (handleFileUpload_settle (Rejected (str ''Failed to fetch'')) ?b)) = 1"
    using left by (simp add: progressReset_def)
  then have again: "uploadProgress (progressTick (progressReset
          (handleFileUpload_settle (Rejected (str ''Failed to fetch'')) ?b))) = 10"
    by (simp add: tick_progress reset_after_settle)
  show ?thesis using left cleared again by simp
qed

section \<open>Properties of the sort\<close>

lemma mset_insertSorted: "mset (insertSorted cmp x ys) = add_mset x (mset ys)"
  by (induction ys) auto

lemma mset_array_sort: "mset (array_sort cmp xs) = mset xs"
  by (induction xs) (auto simp: array_sort_def mset_insertSorted)

lemma filter_insertSorted:
  assumes "\<And>y. key y = key x \<Longrightarrow> \<not> positive (cmp x y)"
  shows "filter (\<lambda>y. key y = k) (insertSorted cmp x ys) = filter (\<lambda>y. key y = k) (x # ys)"
  using assms by (induction ys) auto

lemma array_sort_stable:
  assumes "\<And>x y. key y = key x \<Longrightarrow> \<not> positive (cmp x y)"
  shows "filter (\<lambda>y. key y = k) (array_sort cmp xs) = filter (\<lambda>y. key y = k) xs"
proof (induction xs)
  case Nil
  then show ?case by (simp add: array_sort_def)
next
  case (Cons x xs)
  have "filter (\<lambda>y. key y = k) (insertSorted cmp x (array_sort cmp xs))
        = filter (\<lambda>y. key y = k) (x # array_sort cmp xs)"
    by (rule filter_insertSorted) (rule assms)
  then show ?case using Cons by (simp add: array_sort_def)
qed

lemma not_positive_sub_same: "\<not> positive (sub k k)"
  by (cases k) simp_all

lemma compareJobs_sortKey:
  "compareJobs g sb a b = sub (sortKey g sb b) (sortKey g sb a)"
  by (simp add: compareJobs_def sortKey_def salaryNumber_def Let_def)

lemma compareJobs_salary:
  "compareJobs g (str ''salary'') a b = sub (salaryNumber (salary b)) (salaryNumber (salary a))"
  by (simp add: compareJobs_sortKey sortKey_def) (simp add: str_def)

lemma compareJobs_relevance:
  "compareJobs g (str ''relevance_score'') a b = sub (relevance_score b) (relevance_score a)"
  by (simp add: compareJobs_def)

lemma sorted_insertSorted:
  assumes tr: "\<And>a b c. R a b \<Longrightarrow> R b c \<Longrightarrow> R a c"
    and after: "\<And>a b. positive (cmp a b) \<Longrightarrow> R b a"
    and before: "\<And>a b. \<not> positive (cmp a b) \<Longrightarrow> R a b"
  shows "sorted_wrt R ys \<Longrightarrow> sorted_wrt R (insertSorted cmp x ys)"
proof (induction ys)
  case Nil
  then show ?case by simp
next
  case (Cons y ys)
  show ?case
  proof (cases "positive (cmp x y)")
    case True
    have "set (insertSorted cmp x ys) = insert x (set ys)"
      using mset_insertSorted [of cmp x ys] by (metis set_mset_add_mset_insert set_mset_mset)
    then show ?thesis using True Cons after by auto
  next
    case False
    then have "R x y" by (rule before)
    then show ?thesis using False Cons tr by auto
  qed
qed

lemma toDouble_not_NaN: "toDouble n \<noteq> NaN"
  by (simp add: toDouble_def Let_def)

lemma takeWhile_filter_same: "takeWhile P (filter P xs) = filter P xs"
  by (induction xs) auto

lemma salaryNumber_toDouble: "salaryNumber s = toDouble (salaryValue s)"
proof (cases "stripNonDigits s = []")
  case True
  then show ?thesis
    by (simp add: salaryNumber_def salaryValue_def parseInt_def stripNonDigits_def
        takeWhile_filter_same digitsValue_def toDouble_def)
next
  case False
  then have "parseInt (stripNonDigits s) = toDouble (salaryValue s)"
    by (simp add: salaryValue_def parseInt_def stripNonDigits_def takeWhile_filter_same)
  then show ?thesis using toDouble_not_NaN [of "salaryValue s"]
    by (cases "toDouble (salaryValue s)") (simp_all add: salaryNumber_def)
qed

lemma num_le_trans: "num_le x y \<Longrightarrow> num_le y z \<Longrightarrow> num_le x z"
  by (cases x; cases y; cases z) simp_all

lemma positive_sub_num_le: "positive (sub y x) \<Longrightarrow> num_le x y"
  by (cases x; cases y) simp_all

lemma not_positive_sub_num_le:
  "x \<noteq> NaN \<Longrightarrow> y \<noteq> NaN \<Longrightarrow> \<not> positive (sub y x) \<Longrightarrow> num_le y x"
  by (cases x; cases y) simp_all

lemma salaryNumber_not_NaN: "salaryNumber s \<noteq> NaN"
  by (simp add: salaryNumber_toDouble toDouble_not_NaN)

lemma toDouble_exact: "n < 2 ^ 53 \<Longrightarrow> toDouble n = Fin (real n)"
  by (simp add: toDouble_def)

lemma sorted_array_sort:
  assumes tr: "\<And>a b c. R a b \<Longrightarrow> R b c \<Longrightarrow> R a c"
    and after: "\<And>a b. positive (cmp a b) \<Longrightarrow> R b a"
    and before: "\<And>a b. \<not> positive (cmp a b) \<Longrightarrow> R a b"
  shows "sorted_wrt R (array_sort cmp xs)"
proof (induction xs)
  case Nil
  then show ?case by (simp add: array_sort_def)
next
  case (Cons x xs)
  have "sorted_wrt R (insertSorted cmp x (array_sort cmp xs))"
    using tr after before Cons by (rule sorted_insertSorted)
  then show ?case by (simp add: array_sort_def)
qed

lemma sub_order_facts:
  assumes "ka \<noteq> NaN" "kb \<noteq> NaN" "kc \<noteq> NaN"
  shows "\<not> negative (sub ka ka) \<and> \<not> positive (sub ka ka)"
    and "negative (sub kb ka) \<longleftrightarrow> positive (sub ka kb)"
    and "negative (sub kb ka) \<and> negative (sub kc kb) \<longrightarrow> negative (sub kc ka)"
    and "\<not> negative (sub kb ka) \<and> \<not> positive (sub kb ka)
         \<and> \<not> negative (sub kc kb) \<and> \<not> positive (sub kc kb)
         \<longrightarrow> \<not> negative (sub kc ka) \<and> \<not> positive (sub kc ka)"
  using assms by (cases ka; cases kb; cases kc; simp)+

lemma key_consistent:
  assumes cmp: "\<And>a b. cmp a b = sub (K b) (K a)"
    and nn: "\<And>x. x \<in> set xs \<Longrightarrow> K x \<noteq> NaN"
  shows "consistent cmp xs"
  unfolding consistent_def list_all_iff
proof (intro ballI)
  fix a b c
  assume "a \<in> set xs" "b \<in> set xs" "c \<in> set xs"
  then have n: "K a \<noteq> NaN" "K b \<noteq> NaN" "K c \<noteq> NaN" using nn by auto
  show "\<not> negative (cmp a a) \<and> \<not> positive (cmp a a)
        \<and> (negative (cmp a b) \<longleftrightarrow> positive (cmp b a))
        \<and> (negative (cmp a b) \<and> negative (cmp b c) \<longrightarrow> negative (cmp a c))
        \<and> (\<not> negative (cmp a b) \<and> \<not> positive (cmp a b)
             \<and> \<not> negative (cmp b c) \<and> \<not> positive (cmp b c)
             \<longrightarrow> \<not> negative (cmp a c) \<and> \<not> positive (cmp a c))"
    unfolding cmp
    using sub_order_facts [OF n] by blast
qed

lemma consistentD_same:
  assumes "consistent cmp xs" "a \<in> set xs" "b \<in> set xs" "c \<in> set xs"
    and "\<not> negative (cmp a b)" "\<not> positive (cmp a b)"
    and "\<not> negative (cmp b c)" "\<not> positive (cmp b c)"
  shows "\<not> negative (cmp a c) \<and> \<not> positive (cmp a c)"
  using assms unfolding consistent_def list_all_iff by blast

lemma sortKey_salary: "sortKey g (str ''salary'') j = salaryNumber (salary j)"
  by (simp add: sortKey_def) (simp add: str_def)

lemma sortKey_relevance: "sortKey g (str ''relevance_score'') j = relevance_score j"
  by (simp add: sortKey_def)

lemma compareJobs_consistent:
  assumes "comparable g sb jobs"
  shows "consistent (compareJobs g sb) jobs"
proof (rule key_consistent)
  show "\<And>a b. compareJobs g sb a b = sub (sortKey g sb b) (sortKey g sb a)"
    by (rule compareJobs_sortKey)
  show "\<And>x. x \<in> set jobs \<Longrightarrow> sortKey g sb x \<noteq> NaN"
    using assms by (simp add: comparable_def)
qed

lemma salary_comparable: "comparable g (str ''salary'') jobs"
  by (simp add: comparable_def sortKey_salary salaryNumber_not_NaN)

lemma conforming_sortedJobs:
  assumes "conforming engineSort" and "comparable g sb jobs"
  shows "sortedJobs engineSort g sb jobs = array_sort (compareJobs g sb) jobs"
  using assms compareJobs_consistent [of g sb jobs]
  by (simp add: sortedJobs_def conforming_def)

lemma conforming_array_sort: "conforming array_sort"
  by (simp add: conforming_def)

lemma consistentD:
  assumes "consistent cmp xs" "a \<in> set xs" "b \<in> set xs" "c \<in> set xs"
  shows "\<not> negative (cmp a a)" "\<not> positive (cmp a a)"
    and "negative (cmp a b) \<longleftrightarrow> positive (cmp b a)"
    and "negative (cmp a b) \<Longrightarrow> negative (cmp b c) \<Longrightarrow> negative (cmp a c)"
    and "\<not> negative (cmp a b) \<Longrightarrow> \<not> positive (cmp a b) \<Longrightarrow>
         \<not> negative (cmp b c) \<Longrightarrow> \<not> positive (cmp b c) \<Longrightarrow>
         \<not> negative (cmp a c) \<and> \<not> positive (cmp a c)"
  using assms unfolding consistent_def list_all_iff by blast+

lemma filter_length_mono:
  "(\<And>x. x \<in> set xs \<Longrightarrow> P x \<Longrightarrow> Q x) \<Longrightarrow> length (filter P xs) \<le> length (filter Q xs)"
  by (induction xs) auto

lemma filter_length_strict:
  assumes "\<And>x. x \<in> set xs \<Longrightarrow> P x \<Longrightarrow> Q x" and "a \<in> set xs" and "Q a" and "\<not> P a"
  shows "length (filter P xs) < length (filter Q xs)"
  using assms
proof (induction xs)
  case Nil
  then show ?case by simp
next
  case (Cons x xs)
  have m: "length (filter P xs) \<le> length (filter Q xs)"
    using Cons.prems(1) by (intro filter_length_mono) auto
  show ?case
  proof (cases "x = a")
    case True
    then show ?thesis using Cons.prems m by simp
  next
    case False
    then have "a \<in> set xs" using Cons.prems(2) by simp
    then have "length (filter P xs) < length (filter Q xs)"
      using Cons.IH Cons.prems by simp
    then show ?thesis using Cons.prems(1) [of x] by auto
  qed
qed

lemma rank_less:
  assumes c: "consistent cmp xs" and a: "a \<in> set xs" and b: "b \<in> set xs"
    and lt: "negative (cmp a b)"
  shows "rank cmp xs a < rank cmp xs b"
  unfolding rank_def
proof (rule filter_length_strict [where a = a])
  show "\<And>x. x \<in> set xs \<Longrightarrow> negative (cmp x a) \<Longrightarrow> negative (cmp x b)"
    using consistentD(4) [OF c _ a b] lt by blast
  show "a \<in> set xs" by (rule a)
  show "negative (cmp a b)" by (rule lt)
  show "\<not> negative (cmp a a)" by (rule consistentD(1) [OF c a a a])
qed

lemma rank_equal:
  assumes c: "consistent cmp xs" and a: "a \<in> set xs" and b: "b \<in> set xs"
    and e1: "\<not> negative (cmp a b)" and e2: "\<not> positive (cmp a b)"
  shows "rank cmp xs a = rank cmp xs b"
proof -
  have sym: "\<not> negative (cmp b a)" "\<not> positive (cmp b a)"
    using consistentD(3) [OF c a b a] consistentD(3) [OF c b a a] e1 e2 by blast+
  have "negative (cmp x a) \<longleftrightarrow> negative (cmp x b)" if x: "x \<in> set xs" for x
  proof
    assume xa: "negative (cmp x a)"
    show "negative (cmp x b)"
    proof (rule ccontr)
      assume n: "\<not> negative (cmp x b)"
      show False
      proof (cases "positive (cmp x b)")
        case True
        then have "negative (cmp b x)" using consistentD(3) [OF c b x a] by blast
        then have "negative (cmp b a)" using consistentD(4) [OF c b x a] xa by blast
        then show False using sym by blast
      next
        case False
        have "\<not> negative (cmp x a) \<and> \<not> positive (cmp x a)"
          using consistentD(5) [OF c x b a] n False sym by blast
        then show False using xa by blast
      qed
    qed
  next
    assume xb: "negative (cmp x b)"
    show "negative (cmp x a)"
    proof (rule ccontr)
      assume n: "\<not> negative (cmp x a)"
      show False
      proof (cases "positive (cmp x a)")
        case True
        then have "negative (cmp a x)" using consistentD(3) [OF c a x a] by blast
        then have "negative (cmp a b)" using consistentD(4) [OF c a x b] xb by blast
        then show False using e1 by blast
      next
        case False
        have "\<not> negative (cmp x b) \<and> \<not> positive (cmp x b)"
          using consistentD(5) [OF c x a b] n False e1 e2 by blast
        then show False using xb by blast
      qed
    qed
  qed
  then show ?thesis unfolding rank_def by (metis (mono_tags, lifting) filter_cong)
qed

lemma rank_negative:
  assumes c: "consistent cmp xs" and a: "a \<in> set xs" and b: "b \<in> set xs"
  shows "negative (cmp a b) \<longleftrightarrow> rank cmp xs a < rank cmp xs b"
proof
  assume "negative (cmp a b)"
  then show "rank cmp xs a < rank cmp xs b" by (rule rank_less [OF c a b])
next
  assume r: "rank cmp xs a < rank cmp xs b"
  show "negative (cmp a b)"
  proof (rule ccontr)
    assume n: "\<not> negative (cmp a b)"
    show False
    proof (cases "positive (cmp a b)")
      case True
      then have "negative (cmp b a)" using consistentD(3) [OF c b a a] by blast
      then have "rank cmp xs b < rank cmp xs a" by (rule rank_less [OF c b a])
      then show False using r by simp
    next
      case False
      then have "rank cmp xs a = rank cmp xs b" using rank_equal [OF c a b n] by blast
      then show False using r by simp
    qed
  qed
qed

lemma rank_positive:
  assumes c: "consistent cmp xs" and a: "a \<in> set xs" and b: "b \<in> set xs"
  shows "positive (cmp a b) \<longleftrightarrow> rank cmp xs b < rank cmp xs a"
  using rank_negative [OF c b a] consistentD(3) [OF c b a a] by blast

lemma insertSorted_insort_key:
  assumes "\<And>y. y \<in> set ys \<Longrightarrow> positive (cmp x y) \<longleftrightarrow> f y < (f x :: nat)"
  shows "insertSorted cmp x ys = insort_key f x ys"
  using assms by (induction ys) (auto simp: not_less)

lemma array_sort_sort_key:
  assumes "\<And>a b. a \<in> set zs \<Longrightarrow> b \<in> set zs \<Longrightarrow> positive (cmp a b) \<longleftrightarrow> f b < (f a :: nat)"
  shows "array_sort cmp zs = sort_key f zs"
  using assms
proof (induction zs)
  case Nil
  then show ?case by (simp add: array_sort_def)
next
  case (Cons x zs)
  have ih: "array_sort cmp zs = sort_key f zs"
    using Cons.prems by (intro Cons.IH) auto
  have "insertSorted cmp x (sort_key f zs) = insort_key f x (sort_key f zs)"
    using Cons.prems by (intro insertSorted_insort_key) auto
  then show ?case using ih by (simp add: array_sort_def sort_key_def)
qed

lemma insertionPoint_bounds:
  assumes "sorted (map f w)" and "left \<le> right" and "right \<le> length w"
    and "\<And>j. j < left \<Longrightarrow> f (w ! j) \<le> (f p :: nat)"
    and "\<And>j. right \<le> j \<Longrightarrow> j < length w \<Longrightarrow> f p < f (w ! j)"
    and "\<And>a. a \<in> set w \<Longrightarrow> negative (cmp p a) \<longleftrightarrow> f p < f a"
  shows "insertionPoint cmp p w left right \<le> length w
       \<and> (\<forall>j < insertionPoint cmp p w left right. f (w ! j) \<le> f p)
       \<and> (\<forall>j. insertionPoint cmp p w left right \<le> j \<and> j < length w \<longrightarrow> f p < f (w ! j))"
  using assms
proof (induction cmp p w left right rule: insertionPoint.induct)
  case (1 cmp pivot w left right)
  show ?case
  proof (cases "left < right")
    case False
    then have "insertionPoint cmp pivot w left right = left"
      by (simp add: insertionPoint.simps)
    moreover have "left = right" using False "1.prems"(2) by simp
    ultimately show ?thesis using "1.prems" by auto
  next
    case True
    define mid where "mid = left + (right - left) div 2"
    have mid: "left \<le> mid" "mid < right" using True by (auto simp: mid_def)
    then have ml: "mid < length w" using "1.prems"(3) by simp
    have srt: "f (w ! i) \<le> f (w ! j)" if "i \<le> j" "j < length w" for i j
      using "1.prems"(1) that by (simp add: sorted_iff_nth_mono)
    show ?thesis
    proof (cases "negative (cmp pivot (w ! mid))")
      case neg: True
      then have lt: "f pivot < f (w ! mid)" using "1.prems"(6) ml by simp
      have step: "insertionPoint cmp pivot w left right = insertionPoint cmp pivot w left mid"
        using True neg by (subst insertionPoint.simps) (simp add: mid_def Let_def)
      have "insertionPoint cmp pivot w left mid \<le> length w
       \<and> (\<forall>j < insertionPoint cmp pivot w left mid. f (w ! j) \<le> f pivot)
       \<and> (\<forall>j. insertionPoint cmp pivot w left mid \<le> j \<and> j < length w \<longrightarrow> f pivot < f (w ! j))"
      proof (rule "1.IH"(1) [OF True mid_def neg])
        show "sorted (map f w)" by (rule "1.prems"(1))
        show "left \<le> mid" by (rule mid(1))
        show "mid \<le> length w" using ml by simp
        show "\<And>j. j < left \<Longrightarrow> f (w ! j) \<le> f pivot" by (rule "1.prems"(4))
        show "\<And>j. mid \<le> j \<Longrightarrow> j < length w \<Longrightarrow> f pivot < f (w ! j)"
          using lt srt by (meson less_le_trans)
        show "\<And>a. a \<in> set w \<Longrightarrow> negative (cmp pivot a) \<longleftrightarrow> f pivot < f a"
          by (rule "1.prems"(6))
      qed
      then show ?thesis unfolding step .
    next
      case nn: False
      then have le: "f (w ! mid) \<le> f pivot" using "1.prems"(6) ml by (simp add: not_less)
      have step: "insertionPoint cmp pivot w left right = insertionPoint cmp pivot w (mid + 1) right"
        using True nn by (subst insertionPoint.simps) (simp add: mid_def Let_def)
      have "insertionPoint cmp pivot w (mid + 1) right \<le> length w
       \<and> (\<forall>j < insertionPoint cmp pivot w (mid + 1) right. f (w ! j) \<le> f pivot)
       \<and> (\<forall>j. insertionPoint cmp pivot w (mid + 1) right \<le> j \<and> j < length w \<longrightarrow> f pivot < f (w ! j))"
      proof (rule "1.IH"(2) [OF True mid_def nn])
        show "sorted (map f w)" by (rule "1.prems"(1))
        show "mid + 1 \<le> right" using mid(2) by simp
        show "right \<le> length w" by (rule "1.prems"(3))
        show "\<And>j. j < mid + 1 \<Longrightarrow> f (w ! j) \<le> f pivot"
        proof -
          fix j assume "j < mid + 1"
          then have "j \<le> mid" by simp
          then have "f (w ! j) \<le> f (w ! mid)" using srt ml by simp
          then show "f (w ! j) \<le> f pivot" using le by simp
        qed
        show "\<And>j. right \<le> j \<Longrightarrow> j < length w \<Longrightarrow> f pivot < f (w ! j)" by (rule "1.prems"(5))
        show "\<And>a. a \<in> set w \<Longrightarrow> negative (cmp pivot a) \<longleftrightarrow> f pivot < f a"
          by (rule "1.prems"(6))
      qed
      then show ?thesis unfolding step .
    qed
  qed
qed

lemma binaryInsert_split:
  assumes "sorted (map f w)"
    and "\<And>a. a \<in> set w \<Longrightarrow> negative (cmp p a) \<longleftrightarrow> (f p :: nat) < f a"
  obtains i where "binaryInsert cmp w p = take i w @ [p] @ drop i w"
    and "\<And>a. a \<in> set (take i w) \<Longrightarrow> f a \<le> f p"
    and "\<And>a. a \<in> set (drop i w) \<Longrightarrow> f p < f a"
proof -
  define i where "i = insertionPoint cmp p w 0 (length w)"
  have b: "i \<le> length w \<and> (\<forall>j < i. f (w ! j) \<le> f p)
       \<and> (\<forall>j. i \<le> j \<and> j < length w \<longrightarrow> f p < f (w ! j))"
    unfolding i_def by (rule insertionPoint_bounds [OF assms(1)]) (use assms(2) in auto)
  have 1: "binaryInsert cmp w p = take i w @ [p] @ drop i w"
    by (simp add: binaryInsert_def i_def Let_def)
  have 2: "f a \<le> f p" if "a \<in> set (take i w)" for a
  proof -
    from that obtain j where "j < length (take i w)" "a = take i w ! j"
      by (metis in_set_conv_nth)
    then show ?thesis using b by simp
  qed
  have 3: "f p < f a" if "a \<in> set (drop i w)" for a
  proof -
    from that obtain j where j: "j < length (drop i w)" "a = drop i w ! j"
      by (metis in_set_conv_nth)
    then have "a = w ! (i + j)" "i + j < length w" using b by auto
    then show ?thesis using b by simp
  qed
  show ?thesis using that 1 2 3 by blast
qed

lemma binaryInsert_props:
  assumes "sorted (map f w)"
    and "\<And>a. a \<in> set w \<Longrightarrow> negative (cmp p a) \<longleftrightarrow> (f p :: nat) < f a"
  shows "sorted (map f (binaryInsert cmp w p))"
    and "mset (binaryInsert cmp w p) = add_mset p (mset w)"
    and "filter (\<lambda>x. f k = f x) (binaryInsert cmp w p) = filter (\<lambda>x. f k = f x) (w @ [p])"
proof -
  obtain i where e: "binaryInsert cmp w p = take i w @ [p] @ drop i w"
    and lo: "\<And>a. a \<in> set (take i w) \<Longrightarrow> f a \<le> f p"
    and hi: "\<And>a. a \<in> set (drop i w) \<Longrightarrow> f p < f a"
    using binaryInsert_split [where f = f and w = w and cmp = cmp and p = p, OF assms] by blast
  have st: "sorted (map f (take i w))" "sorted (map f (drop i w))"
    using assms(1) by (simp_all add: take_map [symmetric] drop_map [symmetric] sorted_wrt_take sorted_wrt_drop)
  show "sorted (map f (binaryInsert cmp w p))"
    unfolding e using st lo hi by (fastforce simp: sorted_append)
  have "mset (take i w @ drop i w) = mset w" by simp
  then show "mset (binaryInsert cmp w p) = add_mset p (mset w)"
    unfolding e by (simp del: append_take_drop_id)
  have w: "filter (\<lambda>x. f k = f x) w
           = filter (\<lambda>x. f k = f x) (take i w) @ filter (\<lambda>x. f k = f x) (drop i w)"
    by (metis append_take_drop_id filter_append)
  show "filter (\<lambda>x. f k = f x) (binaryInsert cmp w p) = filter (\<lambda>x. f k = f x) (w @ [p])"
  proof (cases "f k = f p")
    case True
    have "f k \<noteq> f a" if "a \<in> set (drop i w)" for a
      using hi [OF that] True by simp
    then have "filter (\<lambda>x. f k = f x) (drop i w) = []"
      by (simp add: filter_empty_conv)
    then show ?thesis unfolding e using w True by simp
  next
    case False
    then show ?thesis unfolding e using w by simp
  qed
qed

lemma foldl_binaryInsert:
  assumes "\<And>a b. a \<in> set (acc @ rest) \<Longrightarrow> b \<in> set (acc @ rest) \<Longrightarrow>
             negative (cmp a b) \<longleftrightarrow> (f a :: nat) < f b"
    and "sorted (map f acc)"
  shows "sorted (map f (foldl (binaryInsert cmp) acc rest))
       \<and> mset (foldl (binaryInsert cmp) acc rest) = mset (acc @ rest)
       \<and> (\<forall>k. filter (\<lambda>x. f k = f x) (foldl (binaryInsert cmp) acc rest)
               = filter (\<lambda>x. f k = f x) (acc @ rest))"
  using assms
proof (induction rest arbitrary: acc)
  case Nil
  then show ?case by simp
next
  case (Cons p rest)
  have rel: "\<And>a. a \<in> set acc \<Longrightarrow> negative (cmp p a) \<longleftrightarrow> f p < f a"
    using Cons.prems(1) by simp
  note props = binaryInsert_props [where f = f and w = acc and cmp = cmp and p = p, OF Cons.prems(2) rel]
  have s: "set (binaryInsert cmp acc p) = insert p (set acc)"
    using props(2) by (metis set_mset_add_mset_insert set_mset_mset)
  have ih: "sorted (map f (foldl (binaryInsert cmp) (binaryInsert cmp acc p) rest))
       \<and> mset (foldl (binaryInsert cmp) (binaryInsert cmp acc p) rest)
           = mset (binaryInsert cmp acc p @ rest)
       \<and> (\<forall>k. filter (\<lambda>x. f k = f x) (foldl (binaryInsert cmp) (binaryInsert cmp acc p) rest)
               = filter (\<lambda>x. f k = f x) (binaryInsert cmp acc p @ rest))"
  proof (rule Cons.IH)
    show "\<And>a b. a \<in> set (binaryInsert cmp acc p @ rest) \<Longrightarrow>
            b \<in> set (binaryInsert cmp acc p @ rest) \<Longrightarrow> negative (cmp a b) \<longleftrightarrow> f a < f b"
      using Cons.prems(1) s by simp
    show "sorted (map f (binaryInsert cmp acc p))" by (rule props(1))
  qed
  show ?case using ih props(2) props(3) by simp
qed

lemma run_ascending:
  assumes "\<And>a b. a \<in> set (prev # zs) \<Longrightarrow> b \<in> set (prev # zs) \<Longrightarrow>
             negative (cmp a b) \<longleftrightarrow> (f a :: nat) < f b"
  shows "sorted (map f (prev # take (runRest cmp False prev zs) zs))"
  using assms
proof (induction zs arbitrary: prev)
  case Nil
  then show ?case by simp
next
  case (Cons cur zs)
  show ?case
  proof (cases "negative (cmp cur prev)")
    case True
    then show ?thesis by simp
  next
    case False
    then have le: "f prev \<le> f cur" using Cons.prems [of cur prev] by (simp add: not_less)
    have "sorted (map f (cur # take (runRest cmp False cur zs) zs))"
      using Cons.prems by (intro Cons.IH) auto
    then show ?thesis using False le by auto
  qed
qed

lemma run_descending:
  assumes "\<And>a b. a \<in> set (prev # zs) \<Longrightarrow> b \<in> set (prev # zs) \<Longrightarrow>
             negative (cmp a b) \<longleftrightarrow> (f a :: nat) < f b"
  shows "sorted_wrt (\<lambda>a b. f b < f a) (prev # take (runRest cmp True prev zs) zs)"
  using assms
proof (induction zs arbitrary: prev)
  case Nil
  then show ?case by simp
next
  case (Cons cur zs)
  show ?case
  proof (cases "negative (cmp cur prev)")
    case False
    then show ?thesis by simp
  next
    case True
    then have lt: "f cur < f prev" using Cons.prems [of cur prev] by simp
    have "sorted_wrt (\<lambda>a b. f b < f a) (cur # take (runRest cmp True cur zs) zs)"
      using Cons.prems by (intro Cons.IH) auto
    then show ?thesis using True lt by auto
  qed
qed

lemma descending_rev:
  assumes "sorted_wrt (\<lambda>a b. (f b :: nat) < f a) run"
  shows "sorted (map f (rev run))"
    and "filter (\<lambda>x. f k = f x) (rev run) = filter (\<lambda>x. f k = f x) run"
proof -
  have "sorted_wrt (\<lambda>a b. f a < f b) (rev run)"
    using assms by (simp add: sorted_wrt_rev)
  then have "sorted_wrt (\<lambda>a b. f a \<le> f b) (rev run)"
    by (rule sorted_wrt_mono_rel [rotated]) simp
  then show "sorted (map f (rev run))" by (simp add: sorted_map)
  show "filter (\<lambda>x. f k = f x) (rev run) = filter (\<lambda>x. f k = f x) run"
    using assms
  proof (induction run)
    case Nil
    then show ?case by simp
  next
    case (Cons x run)
    have ih: "filter (\<lambda>x. f k = f x) (rev run) = filter (\<lambda>x. f k = f x) run"
      using Cons by simp
    show ?case
    proof (cases "f k = f x")
      case True
      have "filter (\<lambda>x. f k = f x) run = []"
        using Cons.prems True by (auto simp: filter_empty_conv)
      then show ?thesis using ih True by simp
    next
      case False
      then show ?thesis using ih by simp
    qed
  qed
qed

lemma binaryInsertionSort_sort_key:
  assumes rel: "\<And>a b. a \<in> set xs \<Longrightarrow> b \<in> set xs \<Longrightarrow> negative (cmp a b) \<longleftrightarrow> (f a :: nat) < f b"
  shows "binaryInsertionSort cmp xs = sort_key f xs"
proof (cases "\<exists>x y zs. xs = x # y # zs")
  case False
  then have "xs = [] \<or> (\<exists>x. xs = [x])"
    by (metis list.exhaust)
  then show ?thesis by auto
next
  case True
  then obtain x y zs where xs: "xs = x # y # zs" by blast
  define desc where "desc = negative (cmp y x)"
  define m where "m = runRest cmp desc y zs"
  define run where "run = x # y # take m zs"
  define run' where "run' = (if desc then rev run else run)"
  have split: "run @ drop m zs = xs" by (simp add: run_def xs)
  have out: "binaryInsertionSort cmp xs = foldl (binaryInsert cmp) run' (drop m zs)"
    by (simp add: xs Let_def desc_def m_def run_def run'_def)
  have rel_y: "\<And>a b. a \<in> set (y # zs) \<Longrightarrow> b \<in> set (y # zs) \<Longrightarrow> negative (cmp a b) \<longleftrightarrow> f a < f b"
    using rel xs by simp
  have r: "sorted (map f run') \<and> (\<forall>k. filter (\<lambda>x. f k = f x) run' = filter (\<lambda>x. f k = f x) run)
           \<and> set run' = set run"
  proof (cases desc)
    case True
    then have "f y < f x" using rel [of y x] xs by (simp add: desc_def)
    moreover have "sorted_wrt (\<lambda>a b. f b < f a) (y # take m zs)"
      using run_descending [of y zs cmp f, OF rel_y] True by (simp add: m_def)
    ultimately have "sorted_wrt (\<lambda>a b. f b < f a) run"
      by (auto simp: run_def)
    then show ?thesis using descending_rev [of f run] True by (simp add: run'_def)
  next
    case False
    then have "f x \<le> f y" using rel [of y x] xs by (simp add: desc_def not_less)
    moreover have "sorted (map f (y # take m zs))"
      using run_ascending [of y zs cmp f, OF rel_y] False by (simp add: m_def)
    ultimately have "sorted (map f run)" by (auto simp: run_def)
    then show ?thesis using False by (simp add: run'_def)
  qed
  have eq: "set (run' @ drop m zs) = set xs" using r split by (metis set_append)
  have rel': "negative (cmp a b) \<longleftrightarrow> f a < f b"
    if "a \<in> set (run' @ drop m zs)" "b \<in> set (run' @ drop m zs)" for a b
    using that rel unfolding eq by blast
  have mr: "mset run' = mset run" by (simp add: run'_def)
  have fl: "sorted (map f (foldl (binaryInsert cmp) run' (drop m zs)))
       \<and> mset (foldl (binaryInsert cmp) run' (drop m zs)) = mset (run' @ drop m zs)
       \<and> (\<forall>k. filter (\<lambda>x. f k = f x) (foldl (binaryInsert cmp) run' (drop m zs))
               = filter (\<lambda>x. f k = f x) (run' @ drop m zs))"
    using rel' r by (intro foldl_binaryInsert) auto
  show ?thesis
  proof (rule properties_for_sort_key [symmetric])
    show "mset (binaryInsertionSort cmp xs) = mset xs"
      using fl mr split unfolding out by (metis mset_append)
    show "sorted (map f (binaryInsertionSort cmp xs))" using fl unfolding out by blast
    show "\<And>k. k \<in> set (binaryInsertionSort cmp xs) \<Longrightarrow>
            filter (\<lambda>x. f k = f x) (binaryInsertionSort cmp xs) = filter (\<lambda>x. f k = f x) xs"
    proof -
      fix k
      have "filter (\<lambda>x. f k = f x) (binaryInsertionSort cmp xs)
            = filter (\<lambda>x. f k = f x) (run' @ drop m zs)" using fl unfolding out by blast
      also have "\<dots> = filter (\<lambda>x. f k = f x) (run @ drop m zs)" using r by simp
      finally show "filter (\<lambda>x. f k = f x) (binaryInsertionSort cmp xs) = filter (\<lambda>x. f k = f x) xs"
        using split by simp
    qed
  qed
qed

lemma binaryInsertionSort_conforms:
  assumes "consistent cmp xs"
  shows "binaryInsertionSort cmp xs = array_sort cmp xs"
proof -
  have "binaryInsertionSort cmp xs = sort_key (rank cmp xs) xs"
    by (rule binaryInsertionSort_sort_key) (rule rank_negative [OF assms])
  moreover have "array_sort cmp xs = sort_key (rank cmp xs) xs"
    by (rule array_sort_sort_key) (rule rank_positive [OF assms])
  ultimately show ?thesis by simp
qed

lemma conforming_binaryInsertionSort: "conforming binaryInsertionSort"
  by (simp add: conforming_def binaryInsertionSort_conforms)

lemma salary_sorted_numbers:
  "sorted_wrt (\<lambda>a b. num_le (salaryNumber (salary b)) (salaryNumber (salary a)))
     (array_sort (compareJobs g (str ''salary'')) jobs)"
proof (rule sorted_array_sort)
  fix a b c :: Job
  assume "num_le (salaryNumber (salary b)) (salaryNumber (salary a))"
    and "num_le (salaryNumber (salary c)) (salaryNumber (salary b))"
  then show "num_le (salaryNumber (salary c)) (salaryNumber (salary a))"
    using num_le_trans by blast
next
  fix a b :: Job
  assume "positive (compareJobs g (str ''salary'') a b)"
  then have "positive (sub (salaryNumber (salary b)) (salaryNumber (salary a)))"
    by (simp add: compareJobs_salary)
  then show "num_le (salaryNumber (salary a)) (salaryNumber (salary b))"
    by (rule positive_sub_num_le)
next
  fix a b :: Job
  assume "\<not> positive (compareJobs g (str ''salary'') a b)"
  then have "\<not> positive (sub (salaryNumber (salary b)) (salaryNumber (salary a)))"
    by (simp add: compareJobs_salary)
  then show "num_le (salaryNumber (salary b)) (salaryNumber (salary a))"
    using salaryNumber_not_NaN not_positive_sub_num_le by blast
qed

lemma salary_sorted_values:
  assumes "\<forall>j\<in>set jobs. salaryValue (salary j) < 2 ^ 53"
  shows "sorted_wrt (\<lambda>a b. salaryValue (salary b) \<le> salaryValue (salary a))
     (array_sort (compareJobs g (str ''salary'')) jobs)"
proof -
  have s: "set (array_sort (compareJobs g (str ''salary'')) jobs) = set jobs"
    using mset_array_sort [of "compareJobs g (str ''salary'')" jobs]
    by (metis set_mset_mset)
  have k: "salaryNumber (salary j) = Fin (real (salaryValue (salary j)))" if "j \<in> set jobs" for j
    using that assms by (simp add: salaryNumber_toDouble toDouble_exact)
  show ?thesis
    by (rule sorted_wrt_mono_rel [OF _ salary_sorted_numbers [of g jobs]]) (simp add: s k)
qed

lemma example_relevance_sorted:
  "array_sort (compareJobs g (str ''relevance_score''))
        [exampleJob (str ''A'') [] (Fin 0.9) [] [],
         exampleJob (str ''B'') [] (Fin 0.3) [] [],
         exampleJob (str ''C'') [] (Fin 0.9) [] [],
         exampleJob (str ''D'') [] (Fin 0.1) [] []]
      = [exampleJob (str ''A'') [] (Fin 0.9) [] [],
         exampleJob (str ''C'') [] (Fin 0.9) [] [],
         exampleJob (str ''B'') [] (Fin 0.3) [] [],
         exampleJob (str ''D'') [] (Fin 0.1) [] []]"
  by (simp add: array_sort_def compareJobs_relevance exampleJob_def)

lemma example_relevance_comparable:
  "comparable g (str ''relevance_score'')
        [exampleJob (str ''A'') [] (Fin 0.9) [] [],
         exampleJob (str ''B'') [] (Fin 0.3) [] [],
         exampleJob (str ''C'') [] (Fin 0.9) [] [],
         exampleJob (str ''D'') [] (Fin 0.1) [] []]"
  by (simp add: comparable_def sortKey_relevance exampleJob_def)

lemma cmp_dated:
  "compareJobs g (str ''date_posted'') (datedJob p d) (datedJob p' d') = sub (g d') (g d)"
  by (simp add: compareJobs_def datedJob_def exampleJob_def) (simp add: str_def)

lemma exampleTime_values:
  "exampleTime (str ''2024-01-01'') = Fin 1704067200000"
  "exampleTime (str ''2024-03-01'') = Fin 1709251200000"
  "exampleTime (str ''2024-04-01'') = Fin 1711929600000"
  "exampleTime (str ''2024-05-01'') = Fin 1714521600000"
  "exampleTime (str ''2024-10-01'') = Fin 1727740800000"
  "exampleTime (str ''soon'') = NaN"
  by (simp_all add: exampleTime_def) (simp_all add: str_def)

lemma sortKey_dated: "sortKey g (str ''date_posted'') (datedJob p d) = g d"
  by (simp add: sortKey_def datedJob_def exampleJob_def) (simp add: str_def)

lemma example_dates_order:
  "binaryInsertionSort (compareJobs exampleTime (str ''date_posted''))
     [datedJob (str ''A'') (str ''2024-05-01''),
      datedJob (str ''B'') (str ''2024-04-01''),
      datedJob (str ''C'') (str ''2024-01-01''),
      datedJob (str ''D'') (str ''soon''),
      datedJob (str ''E'') (str ''2024-03-01''),
      datedJob (str ''F'') (str ''2024-10-01''),
      datedJob (str ''G'') (str ''2024-03-01'')]
   = [datedJob (str ''F'') (str ''2024-10-01''),
      datedJob (str ''A'') (str ''2024-05-01''),
      datedJob (str ''B'') (str ''2024-04-01''),
      datedJob (str ''G'') (str ''2024-03-01''),
      datedJob (str ''C'') (str ''2024-01-01''),
      datedJob (str ''D'') (str ''soon''),
      datedJob (str ''E'') (str ''2024-03-01'')]"
  by (simp add: cmp_dated exampleTime_values binaryInsert_def insertionPoint.simps Let_def)

lemma example_dates_inconsistent:
  "\<not> consistent (compareJobs exampleTime (str ''date_posted''))
     [datedJob (str ''A'') (str ''2024-05-01''),
      datedJob (str ''B'') (str ''2024-04-01''),
      datedJob (str ''C'') (str ''2024-01-01''),
      datedJob (str ''D'') (str ''soon''),
      datedJob (str ''E'') (str ''2024-03-01''),
      datedJob (str ''F'') (str ''2024-10-01''),
      datedJob (str ''G'') (str ''2024-03-01'')]"
proof
  let ?cmp = "compareJobs exampleTime (str ''date_posted'')"
  let ?a = "datedJob (str ''A'') (str ''2024-05-01'')"
  let ?d = "datedJob (str ''D'') (str ''soon'')"
  let ?b = "datedJob (str ''B'') (str ''2024-04-01'')"
  assume c: "consistent ?cmp
     [?a, ?b, datedJob (str ''C'') (str ''2024-01-01''), ?d,
      datedJob (str ''E'') (str ''2024-03-01''),
      datedJob (str ''F'') (str ''2024-10-01''),
      datedJob (str ''G'') (str ''2024-03-01'')]"
  have "\<not> negative (?cmp ?a ?b) \<and> \<not> positive (?cmp ?a ?b)"
    by (rule consistentD_same [OF c, of ?a ?d ?b]) (simp_all add: cmp_dated exampleTime_values)
  then show False by (simp add: cmp_dated exampleTime_values)
qed

text \<open>
  C3 as stated fails: under the date key, with one date that does not parse, the
  comparator is not consistent, and an engine within the language's rules (binary
  insertion after the leading run) returns the second job of 2024-03-01 (G) in front of
  the first (E).
\<close>

theorem date_sort_not_stable:
  "sortedJobs binaryInsertionSort exampleTime (str ''date_posted'')
     [datedJob (str ''A'') (str ''2024-05-01''),
      datedJob (str ''B'') (str ''2024-04-01''),
      datedJob (str ''C'') (str ''2024-01-01''),
      datedJob (str ''D'') (str ''soon''),
      datedJob (str ''E'') (str ''2024-03-01''),
      datedJob (str ''F'') (str ''2024-10-01''),
      datedJob (str ''G'') (str ''2024-03-01'')]
   = [datedJob (str ''F'') (str ''2024-10-01''),
      datedJob (str ''A'') (str ''2024-05-01''),
      datedJob (str ''B'') (str ''2024-04-01''),
      datedJob (str ''G'') (str ''2024-03-01''),
      datedJob (str ''C'') (str ''2024-01-01''),
      datedJob (str ''D'') (str ''soon''),
      datedJob (str ''E'') (str ''2024-03-01'')]
   \<and> conforming binaryInsertionSort
   \<and> sortKey exampleTime (str ''date_posted'') (datedJob (str ''E'') (str ''2024-03-01''))
     = sortKey exampleTime (str ''date_posted'') (datedJob (str ''G'') (str ''2024-03-01''))"
  using example_dates_order conforming_binaryInsertionSort
  by (simp add: sortedJobs_def sortKey_dated)

text \<open>
  C3, amended. On an engine that follows the language, and for a job list that is
  comparable under the sort key (always under the salary key and under a key the
  comparator does not know; under the relevance and date keys when no score is NaN and
  every date parses), the sort keeps the jobs of equal key in their input order: for every
  key value \<open>k\<close>, the jobs of key \<open>k\<close> are the same sequence in the output and in
  the input, and the output is a rearrangement of the input. With the relevance key, the
  jobs A, B, C, D of scores 0.9, 0.3, 0.9, 0.1 come out as A, C, B, D.
\<close>

theorem sort_is_stable:
  assumes "conforming engineSort" and "comparable getTime sortBy jobs"
  shows "filter (\<lambda>j. sortKey getTime sortBy j = k) (sortedJobs engineSort getTime sortBy jobs)
     = filter (\<lambda>j. sortKey getTime sortBy j = k) jobs
   \<and> mset (sortedJobs engineSort getTime sortBy jobs) = mset jobs
   \<and> sortedJobs engineSort getTime (str ''relevance_score'')
        [exampleJob (str ''A'') [] (Fin 0.9) [] [],
         exampleJob (str ''B'') [] (Fin 0.3) [] [],
         exampleJob (str ''C'') [] (Fin 0.9) [] [],
         exampleJob (str ''D'') [] (Fin 0.1) [] []]
      = [exampleJob (str ''A'') [] (Fin 0.9) [] [],
         exampleJob (str ''C'') [] (Fin 0.9) [] [],
         exampleJob (str ''B'') [] (Fin 0.3) [] [],
         exampleJob (str ''D'') [] (Fin 0.1) [] []]"
proof -
  have run: "sortedJobs engineSort getTime sortBy jobs = array_sort (compareJobs getTime sortBy) jobs"
    by (rule conforming_sortedJobs [OF assms])
  have stable: "filter (\<lambda>j. sortKey getTime sortBy j = k) (sortedJobs engineSort getTime sortBy jobs)
     = filter (\<lambda>j. sortKey getTime sortBy j = k) jobs"
    unfolding run
    by (rule array_sort_stable) (simp add: compareJobs_sortKey not_positive_sub_same)
  have perm: "mset (sortedJobs engineSort getTime sortBy jobs) = mset jobs"
    by (simp add: run mset_array_sort)
  have ex: "sortedJobs engineSort getTime (str ''relevance_score'')
        [exampleJob (str ''A'') [] (Fin 0.9) [] [],
         exampleJob (str ''B'') [] (Fin 0.3) [] [],
         exampleJob (str ''C'') [] (Fin 0.9) [] [],
         exampleJob (str ''D'') [] (Fin 0.1) [] []]
      = [exampleJob (str ''A'') [] (Fin 0.9) [] [],
         exampleJob (str ''C'') [] (Fin 0.9) [] [],
         exampleJob (str ''B'') [] (Fin 0.3) [] [],
         exampleJob (str ''D'') [] (Fin 0.1) [] []]"
    using conforming_sortedJobs [OF assms(1) example_relevance_comparable, of getTime]
      example_relevance_sorted [of getTime]
    by simp
  show ?thesis using stable perm ex by simp
qed

theorem sort_is_stable_witness:
  "conforming binaryInsertionSort
   \<and> comparable exampleTime (str ''date_posted'')
       [datedJob (str ''A'') (str ''2024-03-01''),
        datedJob (str ''B'') (str ''2024-05-01''),
        datedJob (str ''C'') (str ''2024-03-01'')]
   \<and> filter (\<lambda>j. sortKey exampleTime (str ''date_posted'') j = Fin 1709251200000)
       (sortedJobs binaryInsertionSort exampleTime (str ''date_posted'')
         [datedJob (str ''A'') (str ''2024-03-01''),
          datedJob (str ''B'') (str ''2024-05-01''),
          datedJob (str ''C'') (str ''2024-03-01'')])
     = [datedJob (str ''A'') (str ''2024-03-01''), datedJob (str ''C'') (str ''2024-03-01'')]"
proof -
  let ?jobs = "[datedJob (str ''A'') (str ''2024-03-01''),
        datedJob (str ''B'') (str ''2024-05-01''),
        datedJob (str ''C'') (str ''2024-03-01'')]"
  have c: "comparable exampleTime (str ''date_posted'') ?jobs"
    by (simp add: comparable_def sortKey_dated exampleTime_values)
  have f: "filter (\<lambda>j. sortKey exampleTime (str ''date_posted'') j = Fin 1709251200000) ?jobs
           = [datedJob (str ''A'') (str ''2024-03-01''), datedJob (str ''C'') (str ''2024-03-01'')]"
    by (simp add: sortKey_dated exampleTime_values)
  show ?thesis
    using conforming_binaryInsertionSort c f
      sort_is_stable [OF conforming_binaryInsertionSort c, of "Fin 1709251200000"]
    by simp
qed

lemma example_salary_values:
  "salaryValue (str ''$50,000'') = 50000"
  "salaryValue (str ''abc'') = 0"
  "salaryValue (str ''$120,000'') = 120000"
  by (simp_all add: salaryValue_def digitsValue_def stripNonDigits_def isDigit_def str_def)

lemma example_salary_sorted:
  "array_sort (compareJobs g (str ''salary''))
     [exampleJob (str ''A'') (str ''$50,000'') (Fin (1 / 2)) [] [],
      exampleJob (str ''B'') (str ''abc'') (Fin (1 / 2)) [] [],
      exampleJob (str ''C'') (str ''$120,000'') (Fin (1 / 2)) [] []]
   = [exampleJob (str ''C'') (str ''$120,000'') (Fin (1 / 2)) [] [],
      exampleJob (str ''A'') (str ''$50,000'') (Fin (1 / 2)) [] [],
      exampleJob (str ''B'') (str ''abc'') (Fin (1 / 2)) [] []]"
  by (simp add: array_sort_def compareJobs_salary
      salaryNumber_toDouble example_salary_values toDouble_def exampleJob_def)

text \<open>
  C2 as stated fails: the salary strings 9007199254740992 and 9007199254740993 denote
  different integers and parse to the same number, so the comparator returns 0 and the
  job of the smaller integer stays in front.
\<close>

theorem salary_sort_not_by_integer:
  "sortedJobs array_sort unparsed (str ''salary'')
     [exampleJob (str ''A'') (str ''9007199254740992'') (Fin (1 / 2)) [] [],
      exampleJob (str ''B'') (str ''9007199254740993'') (Fin (1 / 2)) [] []]
   = [exampleJob (str ''A'') (str ''9007199254740992'') (Fin (1 / 2)) [] [],
      exampleJob (str ''B'') (str ''9007199254740993'') (Fin (1 / 2)) [] []]
   \<and> salaryValue (str ''9007199254740992'') < salaryValue (str ''9007199254740993'')"
proof -
  have v: "salaryValue (str ''9007199254740992'') = 9007199254740992"
          "salaryValue (str ''9007199254740993'') = 9007199254740993"
    by (simp_all add: salaryValue_def digitsValue_def stripNonDigits_def isDigit_def str_def)
  have b: "bitLength 9007199254740992 = 54" "bitLength 9007199254740993 = 54"
    by (simp_all add: bitLength.simps)
  have d: "toDouble 9007199254740992 = Fin 9007199254740992"
          "toDouble 9007199254740993 = Fin 9007199254740992"
    by (simp_all add: toDouble_def b Let_def)
  show ?thesis
    by (simp add: sortedJobs_def array_sort_def compareJobs_salary
      salaryNumber_toDouble v d exampleJob_def)
qed

text \<open>
  C2, amended. On an engine that follows the language, sorting by the salary key
  rearranges the jobs into descending order of the number that \<open>Number.parseInt\<close> gives
  for the digits of the salary string (0 for a string with no digit). That number is the
  double nearest to the integer the digits denote, and the integer itself below
  \<open>2^53\<close>: when every salary integer is below \<open>2^53\<close>, the order is descending on
  the integer. The salaries $50,000, abc, $120,000 come out as $120,000, $50,000, abc.
\<close>

theorem salary_sort_descending:
  assumes "conforming engineSort"
  shows "mset (sortedJobs engineSort getTime (str ''salary'') jobs) = mset jobs
   \<and> sorted_wrt (\<lambda>a b. num_le (salaryNumber (salary b)) (salaryNumber (salary a)))
        (sortedJobs engineSort getTime (str ''salary'') jobs)
   \<and> salaryNumber s = toDouble (salaryValue s)
   \<and> (stripNonDigits s = [] \<longrightarrow> salaryNumber s = Fin 0)
   \<and> (salaryValue s < 2 ^ 53 \<longrightarrow> salaryNumber s = Fin (real (salaryValue s)))
   \<and> ((\<forall>j\<in>set jobs. salaryValue (salary j) < 2 ^ 53) \<longrightarrow>
        sorted_wrt (\<lambda>a b. salaryValue (salary b) \<le> salaryValue (salary a))
          (sortedJobs engineSort getTime (str ''salary'') jobs))
   \<and> map salary (sortedJobs engineSort getTime (str ''salary'')
        [exampleJob (str ''A'') (str ''$50,000'') (Fin (1 / 2)) [] [],
         exampleJob (str ''B'') (str ''abc'') (Fin (1 / 2)) [] [],
         exampleJob (str ''C'') (str ''$120,000'') (Fin (1 / 2)) [] []])
      = [str ''$120,000'', str ''$50,000'', str ''abc'']"
proof -
  have run: "sortedJobs engineSort getTime (str ''salary'') js
             = array_sort (compareJobs getTime (str ''salary'')) js" for js
    by (rule conforming_sortedJobs [OF assms salary_comparable])
  have perm: "mset (sortedJobs engineSort getTime (str ''salary'') jobs) = mset jobs"
    by (simp add: run mset_array_sort)
  have zero: "salaryNumber s = Fin 0" if "stripNonDigits s = []"
    using that by (simp add: salaryNumber_toDouble salaryValue_def digitsValue_def toDouble_def)
  have exact: "salaryNumber s = Fin (real (salaryValue s))" if "salaryValue s < 2 ^ 53"
    using that by (simp add: salaryNumber_toDouble toDouble_exact)
  have ex: "map salary (sortedJobs engineSort getTime (str ''salary'')
        [exampleJob (str ''A'') (str ''$50,000'') (Fin (1 / 2)) [] [],
         exampleJob (str ''B'') (str ''abc'') (Fin (1 / 2)) [] [],
         exampleJob (str ''C'') (str ''$120,000'') (Fin (1 / 2)) [] []])
      = [str ''$120,000'', str ''$50,000'', str ''abc'']"
    by (simp add: run example_salary_sorted) (simp add: exampleJob_def)
  show ?thesis
    using perm salary_sorted_numbers [of getTime jobs] salaryNumber_toDouble [of s] zero exact
      salary_sorted_values [of jobs getTime] ex
    unfolding run by blast
qed

theorem salary_sort_descending_witness:
  "conforming array_sort
   \<and> salaryValue (str ''$50,000'') < 2 ^ 53 \<and> salaryValue (str ''abc'') < 2 ^ 53
   \<and> salaryValue (str ''$120,000'') < 2 ^ 53
   \<and> stripNonDigits (str ''abc'') = [] \<and> salaryNumber (str ''abc'') = Fin 0
   \<and> salaryNumber (str ''$120,000'') = Fin 120000
   \<and> sorted_wrt (\<lambda>a b. salaryValue (salary b) \<le> salaryValue (salary a))
       (sortedJobs array_sort unparsed (str ''salary'')
         [exampleJob (str ''A'') (str ''$50,000'') (Fin (1 / 2)) [] [],
          exampleJob (str ''B'') (str ''abc'') (Fin (1 / 2)) [] [],
          exampleJob (str ''C'') (str ''$120,000'') (Fin (1 / 2)) [] []])"
proof -
  let ?jobs = "[exampleJob (str ''A'') (str ''$50,000'') (Fin (1 / 2)) [] [],
          exampleJob (str ''B'') (str ''abc'') (Fin (1 / 2)) [] [],
          exampleJob (str ''C'') (str ''$120,000'') (Fin (1 / 2)) [] []]"
  note inst = salary_sort_descending [OF conforming_array_sort]
  have small: "\<forall>j\<in>set ?jobs. salaryValue (salary j) < 2 ^ 53"
    by (simp add: exampleJob_def example_salary_values)
  have nodigit: "stripNonDigits (str ''abc'') = []"
    by (simp add: stripNonDigits_def isDigit_def str_def)
  have v: "salaryValue (str ''$120,000'') < 2 ^ 53"
    by (simp add: example_salary_values)
  have z: "salaryNumber (str ''abc'') = Fin 0"
    using nodigit inst [of unparsed ?jobs "str ''abc''"] by blast
  have srt: "sorted_wrt (\<lambda>a b. salaryValue (salary b) \<le> salaryValue (salary a))
       (sortedJobs array_sort unparsed (str ''salary'') ?jobs)"
    using small inst [of unparsed ?jobs "str ''abc''"] by blast
  have e: "salaryNumber (str ''$120,000'') = Fin (real (salaryValue (str ''$120,000'')))"
    using v inst [of unparsed ?jobs "str ''$120,000''"] by blast
  have e': "salaryNumber (str ''$120,000'') = Fin 120000"
    using e by (simp add: example_salary_values)
  show ?thesis
    using conforming_array_sort nodigit z srt e' by (simp add: example_salary_values)
qed

section \<open>Properties of the filter\<close>

lemma string_includes_iff: "string_includes s t \<longleftrightarrow> (\<exists>ps ss. s = ps @ t @ ss)"
proof (induction s)
  case Nil
  then show ?case by simp
next
  case (Cons c cs)
  show ?case
  proof
    assume "string_includes (c # cs) t"
    then consider "prefix t (c # cs)" | "string_includes cs t" by auto
    then show "\<exists>ps ss. c # cs = ps @ t @ ss"
    proof cases
      case 1
      then obtain ss where "c # cs = t @ ss" by (auto simp: prefix_def)
      then have "c # cs = [] @ t @ ss" by simp
      then show ?thesis by blast
    next
      case 2
      then obtain ps ss where "cs = ps @ t @ ss" using Cons.IH by auto
      then have "c # cs = (c # ps) @ t @ ss" by simp
      then show ?thesis by blast
    qed
  next
    assume "\<exists>ps ss. c # cs = ps @ t @ ss"
    then obtain ps ss where e: "c # cs = ps @ t @ ss" by auto
    show "string_includes (c # cs) t"
    proof (cases ps)
      case Nil
      then have "prefix t (c # cs)" using e by (simp add: prefix_def)
      then show ?thesis by simp
    next
      case (Cons p ps')
      then have "cs = ps' @ t @ ss" using e by simp
      then have "string_includes cs t" using Cons.IH by blast
      then show ?thesis by simp
    qed
  qed
qed

lemma example_filter:
  "filteredJobs asciiLower [str ''python'']
     [exampleJob (str ''A'') [] (Fin (1 / 2)) [str ''Python'', str ''Remote''] [],
      exampleJob (str ''B'') [] (Fin (1 / 2)) [str ''Java''] [],
      exampleJob (str ''C'') [] (Fin (1 / 2)) [] [str ''python3'']]
   = [exampleJob (str ''A'') [] (Fin (1 / 2)) [str ''Python'', str ''Remote''] [],
      exampleJob (str ''C'') [] (Fin (1 / 2)) [] [str ''python3'']]"
  by (simp add: filteredJobs_def asciiLower_def exampleJob_def str_def)

text \<open>
  C1. With an empty tag list the filter step returns the job list as it is. Otherwise it
  keeps, in order, exactly the jobs for which some filter tag is a case-insensitive
  substring of some tag or of some matched keyword of the job.
\<close>

theorem filter_step:
  "filteredJobs toLowerCase [] jobs = jobs
   \<and> (filterTags \<noteq> [] \<longrightarrow>
        filteredJobs toLowerCase filterTags jobs
        = filter (\<lambda>job. \<exists>tag\<in>set filterTags.
                     \<exists>s\<in>set (tags job) \<union> set (matched_keywords job).
                       caseInsensitiveSubstring toLowerCase tag s) jobs)"
proof -
  have a: "filteredJobs toLowerCase [] jobs = jobs" by (simp add: filteredJobs_def)
  have b: "filteredJobs toLowerCase filterTags jobs
        = filter (\<lambda>job. \<exists>tag\<in>set filterTags.
                     \<exists>s\<in>set (tags job) \<union> set (matched_keywords job).
                       caseInsensitiveSubstring toLowerCase tag s) jobs"
    if "filterTags \<noteq> []"
  proof -
    have ci: "string_includes (toLowerCase s) (toLowerCase t)
              = caseInsensitiveSubstring toLowerCase t s" for s t
      by (simp add: string_includes_iff caseInsensitiveSubstring_def)
    have "length filterTags \<noteq> 0" using that by simp
    then show ?thesis
      unfolding filteredJobs_def by (intro filter_cong refl) (simp add: list_ex_iff ci, blast)
  qed
  show ?thesis using a b by blast
qed

theorem filter_step_witness:
  "[str ''python''] \<noteq> []
   \<and> filter (\<lambda>job. \<exists>tag\<in>set [str ''python''].
                \<exists>s\<in>set (tags job) \<union> set (matched_keywords job).
                  caseInsensitiveSubstring asciiLower tag s)
       [exampleJob (str ''A'') [] (Fin (1 / 2)) [str ''Python'', str ''Remote''] [],
        exampleJob (str ''B'') [] (Fin (1 / 2)) [str ''Java''] [],
        exampleJob (str ''C'') [] (Fin (1 / 2)) [] [str ''python3'']]
     = [exampleJob (str ''A'') [] (Fin (1 / 2)) [str ''Python'', str ''Remote''] [],
        exampleJob (str ''C'') [] (Fin (1 / 2)) [] [str ''python3'']]"
proof -
  have ne: "[str ''python''] \<noteq> []" by simp
  show ?thesis
    using ne example_filter
      filter_step [of asciiLower
        "[exampleJob (str ''A'') [] (Fin (1 / 2)) [str ''Python'', str ''Remote''] [],
          exampleJob (str ''B'') [] (Fin (1 / 2)) [str ''Java''] [],
          exampleJob (str ''C'') [] (Fin (1 / 2)) [] [str ''python3'']]"
        "[str ''python'']"]
    by simp
qed

section \<open>Properties of the sanitizer\<close>











lemma collapse_keeps_text:
  "filter (\<lambda>c. \<not> isWhiteSpace c) (collapseWhitespace s) = filter (\<lambda>c. \<not> isWhiteSpace c) s"
proof (induction s rule: collapseWhitespace.induct)
  case 1
  then show ?case by simp
next
  case (2 c cs)
  have "filter (\<lambda>c. \<not> isWhiteSpace c) (dropWhile isWhiteSpace cs) = filter (\<lambda>c. \<not> isWhiteSpace c) cs"
    by (induction cs) auto
  then show ?case using 2 by (cases "isWhiteSpace c") (auto simp: isWhiteSpace_def)
qed















































section \<open>Properties of the export\<close>

lemma lineFeeds_append: "lineFeeds (a @ b) = lineFeeds a + lineFeeds b"
  by (simp add: lineFeeds_def)

lemma lineFeeds_join:
  "lineFeeds (array_join sep xs) = sum_list (map lineFeeds xs) + (length xs - 1) * lineFeeds sep"
  by (induction sep xs rule: array_join.induct) (simp_all add: lineFeeds_append lineFeeds_def)

lemma lineFeeds_zero_iff: "lineFeeds s = 0 \<longleftrightarrow> 0x0A \<notin> set s"
  by (auto simp: lineFeeds_def filter_empty_conv)

lemma digit_not_lf: "d < 10 \<Longrightarrow> (of_nat (48 + d) :: jschar) \<noteq> 0x0A"
proof
  assume d: "d < 10" and e: "(of_nat (48 + d) :: jschar) = 0x0A"
  have "unat (of_nat (48 + d) :: jschar) = (48 + d) mod 2 ^ LENGTH(16)"
    by (rule unat_of_nat)
  also have "\<dots> = 48 + d" using d by simp
  finally have u: "unat (of_nat (48 + d) :: jschar) = 48 + d" .
  have "unat (of_nat (48 + d) :: jschar) = unat (0x0A :: jschar)"
    using e by (rule arg_cong)
  then have "48 + d = 10" using u by simp
  then show False by simp
qed

lemma natToString_no_lf: "0x0A \<notin> set (natToString n)"
proof (induction n rule: natToString.induct)
  case (1 n)
  show ?case
  proof (cases "n < 10")
    case True
    then show ?thesis using digit_not_lf [of n] by (subst natToString.simps) simp
  next
    case False
    have "n mod 10 < 10" by simp
    then have "(of_nat (48 + n mod 10) :: jschar) \<noteq> 0x0A" by (rule digit_not_lf)
    then show ?thesis using False 1 by (subst natToString.simps) auto
  qed
qed

lemma rounded_string_no_lf: "0x0A \<notin> set (numberToString (Math_round x))"
  by (cases x) (simp_all add: natToString_no_lf, simp_all add: str_def)

lemma percent_no_lf: "0x0A \<notin> set (percent product x)"
  using rounded_string_no_lf [of "product x (Fin 100)"]
  by (simp add: percent_def) (simp add: str_def)

lemma lineFeeds_quoteField: "lineFeeds (quoteField v) = lineFeeds v"
  by (simp add: quoteField_def lineFeeds_def)

lemma sum_list_zero: "(\<And>x. x \<in> set xs \<Longrightarrow> f x = (0::nat)) \<Longrightarrow> sum_list (map f xs) = 0"
  by (induction xs) auto

lemma lineFeeds_csvLine:
  assumes "\<And>v. v \<in> set e \<Longrightarrow> 0x0A \<notin> set v"
  shows "lineFeeds (csvLine e) = 0"
proof -
  have "sum_list (map lineFeeds (map quoteField e)) = 0"
    unfolding map_map
    by (rule sum_list_zero) (simp add: lineFeeds_quoteField lineFeeds_zero_iff assms)
  moreover have "lineFeeds (str '','') = 0" by (simp add: lineFeeds_def str_def)
  ultimately show ?thesis by (simp add: csvLine_def lineFeeds_join)
qed

lemma join_no_lf:
  assumes "\<And>t. t \<in> set ts \<Longrightarrow> 0x0A \<notin> set t"
  shows "0x0A \<notin> set (array_join (str ''; '') ts)"
proof -
  have "sum_list (map lineFeeds ts) = 0"
    by (rule sum_list_zero) (simp add: lineFeeds_zero_iff assms)
  moreover have "lineFeeds (str ''; '') = 0" by (simp add: lineFeeds_def str_def)
  ultimately have "lineFeeds (array_join (str ''; '') ts) = 0" by (simp add: lineFeeds_join)
  then show ?thesis by (simp add: lineFeeds_zero_iff)
qed

lemma exportRow_clean:
  assumes "exportedClean job" and "v \<in> set (exportRow product job)"
  shows "0x0A \<notin> set v"
proof -
  have t: "0x0A \<notin> set (array_join (str ''; '') (tags job))"
    using assms(1) by (intro join_no_lf) (simp add: exportedClean_def)
  have k: "0x0A \<notin> set (array_join (str ''; '') (matched_keywords job))"
    using assms(1) by (intro join_no_lf) (simp add: exportedClean_def)
  show ?thesis
    using assms t k percent_no_lf [of product "relevance_score job"]
    by (auto simp: exportRow_def exportedClean_def)
qed

lemma headers_clean: "v \<in> set headers \<Longrightarrow> 0x0A \<notin> set v"
  by (auto simp: headers_def str_def)

lemma lineCount_csvContent:
  assumes "\<And>job. job \<in> set jobs \<Longrightarrow> exportedClean job"
  shows "lineCount (csvContent product jobs) = length jobs + 1"
proof -
  have "lineFeeds l = 0" if "l \<in> set (map csvLine (headers # map (exportRow product) jobs))" for l
  proof -
    from that obtain e where e: "l = csvLine e" "e = headers \<or> e \<in> exportRow product ` set jobs"
      by auto
    have "\<And>v. v \<in> set e \<Longrightarrow> 0x0A \<notin> set v"
      using e(2) headers_clean exportRow_clean assms by blast
    then show ?thesis unfolding e(1) by (rule lineFeeds_csvLine)
  qed
  then have "sum_list (map lineFeeds (map csvLine (headers # map (exportRow product) jobs))) = 0"
    by (intro sum_list_zero)
  then have "lineFeeds (csvContent product jobs) = length jobs"
    by (simp add: csvContent_def lineFeeds_join) (simp add: lineFeeds_def)
  then show ?thesis by (simp add: lineCount_def lineFeeds_def)
qed

lemma rounded_string_nonneg:
  "0 \<le> p \<Longrightarrow> numberToString (Math_round (Fin p)) = natToString (nat \<lfloor>p + 1 / 2\<rfloor>)"
proof -
  assume "0 \<le> p"
  then have "0 \<le> \<lfloor>p + 1 / 2\<rfloor>" by simp
  then have "\<not> (of_int \<lfloor>p + 1 / 2\<rfloor> :: real) < 0" by simp
  then show ?thesis by simp
qed

lemma natToString_50: "natToString 50 = str ''50''"
  by (simp add: natToString.simps str_def)

lemma natToString_25: "natToString 25 = str ''25''"
  by (simp add: natToString.simps str_def)

lemma percent_half: "percent exactTimes (Fin (1 / 2)) = str ''50%''"
  by (simp add: percent_def natToString_50) (simp add: str_def)

text \<open>
  C5 as stated fails: one job whose position contains a line feed gives a document of
  three lines, not two.
\<close>

theorem export_line_feed_in_field:
  "map_option lineCount
     (handleExport exactTimes
        [exampleJob (str ''Dev'' @ [0x0A] @ str ''Ops'') (str ''$50,000'') (Fin (1 / 2)) [] []])
   = Some 3"
  by (simp add: handleExport_def csvContent_def csvLine_def quoteField_def exportRow_def
      headers_def exampleJob_def percent_half lineCount_def)
     (simp add: str_def)

text \<open>
  C5, amended. On the empty job list the export produces nothing. On a non-empty list of
  N jobs it produces the header row and one row per job of the list as it is, in its order,
  joined by single line feeds: N + 1 rows, and exactly N + 1 lines when no exported text
  field of a job contains a line feed. A row is its fields, each between double quotes,
  joined by commas; the fields of a job are position, company, salary, location,
  date_posted, the score times 100 rounded to the nearest integer (halves upward, in
  decimal digits) and followed by \<open>%\<close>, and the tags and the matched keywords each
  joined by semicolon and space.
\<close>

theorem export_document:
  "handleExport product [] = None
   \<and> (jobs \<noteq> [] \<longrightarrow>
        handleExport product jobs
        = Some (array_join [0x0A]
                  (csvLine headers # map (\<lambda>job. csvLine (exportRow product job)) jobs)))
   \<and> length (csvLine headers # map (\<lambda>job. csvLine (exportRow product job)) jobs)
       = length jobs + 1
   \<and> csvLine row = array_join (str '','') (map (\<lambda>v. [0x22] @ v @ [0x22]) row)
   \<and> exportRow product job
       = [position job, company job, salary job, location job, date_posted job,
          numberToString (Math_round (product (relevance_score job) (Fin 100))) @ str ''%'',
          array_join (str ''; '') (tags job),
          array_join (str ''; '') (matched_keywords job)]
   \<and> (0 \<le> p \<longrightarrow> numberToString (Math_round (Fin p)) = natToString (nat \<lfloor>p + 1 / 2\<rfloor>))
   \<and> (jobs \<noteq> [] \<and> (\<forall>job\<in>set jobs. exportedClean job) \<longrightarrow>
        map_option lineCount (handleExport product jobs) = Some (length jobs + 1))"
proof -
  have none: "handleExport product [] = None" by (simp add: handleExport_def)
  have doc: "handleExport product jobs
        = Some (array_join [0x0A]
                  (csvLine headers # map (\<lambda>job. csvLine (exportRow product job)) jobs))"
    if "jobs \<noteq> []"
    using that by (simp add: handleExport_def csvContent_def comp_def)
  have quoted: "csvLine row = array_join (str '','') (map (\<lambda>v. [0x22] @ v @ [0x22]) row)"
  proof -
    have "quoteField = (\<lambda>v. [0x22] @ v @ [0x22])"
      by (rule ext) (simp add: quoteField_def)
    then show ?thesis by (simp add: csvLine_def)
  qed
  have lines: "map_option lineCount (handleExport product jobs) = Some (length jobs + 1)"
    if "jobs \<noteq> []" "\<forall>job\<in>set jobs. exportedClean job"
    using that by (simp add: handleExport_def lineCount_csvContent)
  have row: "exportRow product job
       = [position job, company job, salary job, location job, date_posted job,
          numberToString (Math_round (product (relevance_score job) (Fin 100))) @ str ''%'',
          array_join (str ''; '') (tags job),
          array_join (str ''; '') (matched_keywords job)]"
    by (simp add: exportRow_def percent_def)
  show ?thesis
    using none doc quoted lines row rounded_string_nonneg [of p] by simp
qed

theorem export_document_witness:
  "[exampleJob (str ''Dev'') (str ''$50,000'') (Fin (1 / 2)) [str ''Python'', str ''Remote''] [],
    exampleJob (str ''Ops'') (str ''abc'') (Fin (1 / 4)) [] [str ''python3'']] \<noteq> []
   \<and> exportedClean
       (exampleJob (str ''Dev'') (str ''$50,000'') (Fin (1 / 2)) [str ''Python'', str ''Remote''] [])
   \<and> exportedClean (exampleJob (str ''Ops'') (str ''abc'') (Fin (1 / 4)) [] [str ''python3''])
   \<and> map_option lineCount
       (handleExport exactTimes
         [exampleJob (str ''Dev'') (str ''$50,000'') (Fin (1 / 2))
            [str ''Python'', str ''Remote''] [],
          exampleJob (str ''Ops'') (str ''abc'') (Fin (1 / 4)) [] [str ''python3'']])
     = Some 3
   \<and> (0::real) \<le> 49 / 2 \<and> numberToString (Math_round (Fin (49 / 2))) = str ''25''"
proof -
  let ?a = "exampleJob (str ''Dev'') (str ''$50,000'') (Fin (1 / 2))
              [str ''Python'', str ''Remote''] []"
  let ?b = "exampleJob (str ''Ops'') (str ''abc'') (Fin (1 / 4)) [] [str ''python3'']"
  note inst = export_document [of exactTimes "[?a, ?b]" "[]" ?a "49 / 2"]
  have ne: "[?a, ?b] \<noteq> []" by simp
  have ca: "exportedClean ?a" by (simp add: exportedClean_def exampleJob_def str_def)
  have cb: "exportedClean ?b" by (simp add: exportedClean_def exampleJob_def str_def)
  have all: "\<forall>job\<in>set [?a, ?b]. exportedClean job" using ca cb by simp
  have pos: "(0::real) \<le> 49 / 2" by simp
  have n: "map_option lineCount (handleExport exactTimes [?a, ?b]) = Some (length [?a, ?b] + 1)"
    using ne all inst by blast
  have p: "numberToString (Math_round (Fin (49 / 2)))
           = natToString (nat \<lfloor>49 / 2 + 1 / 2 :: real\<rfloor>)"
    using pos inst by blast
  have p': "numberToString (Math_round (Fin (49 / 2))) = str ''25''"
    using p by (simp add: natToString_25)
  have n': "map_option lineCount (handleExport exactTimes [?a, ?b]) = Some 3"
    using n by (simp add: numeral_3_eq_3)
  show ?thesis using ne ca cb n' p' by simp
qed

end
